theory Spec2Isabelle
  imports Complex_Main "HOL-Library.AList" "HOL-Library.Sublist"
begin

section \<open>Numbers and errors\<close>

text \<open>
  Prices, profits and percentages are floats in the source. They are modelled as exact
  reals: rounding is not represented. What the source does where real arithmetic is
  undefined depends on the kind of float. The division of a Python float by zero raises
  \<open>ZeroDivisionError\<close>. The division of a numpy float by zero raises nothing: the
  quotient is an infinity or NaN and the computation goes on with it. Such a quotient
  is no real number, and the model does not follow the computation further: it ends
  with the outcome \<open>NonFinite\<close>, which stands for no exception, and about a
  computation that ends so nothing is stated. A number that a function takes as an
  argument is a Python float unless its kind is an argument as well; a number that the
  source reads out of a data frame or a Series is a numpy float.

  A failing file operation raises \<open>OSError\<close>. \<open>KeyboardInterrupt\<close> stands for
  the exceptions that are not instances of \<open>Exception\<close>: an
  \<open>except Exception\<close> clause catches the other two and lets this one pass.
\<close>

datatype error = ZeroDivisionError | OSError | KeyboardInterrupt | NonFinite

datatype scalars = python_floats | numpy_floats

fun is_Exception :: "error \<Rightarrow> bool" where
  "is_Exception ZeroDivisionError = True"
| "is_Exception OSError = True"
| "is_Exception KeyboardInterrupt = False"
| "is_Exception NonFinite = False"

definition py_div :: "real \<Rightarrow> real \<Rightarrow> error + real" where
  "py_div a b = (if b = 0 then Inl ZeroDivisionError else Inr (a / b))"

definition np_div :: "real \<Rightarrow> real \<Rightarrow> error + real" where
  "np_div a b = (if b = 0 then Inl NonFinite else Inr (a / b))"

definition divide_as :: "scalars \<Rightarrow> real \<Rightarrow> real \<Rightarrow> error + real" where
  "divide_as kind a b = (case kind of python_floats \<Rightarrow> py_div a b | numpy_floats \<Rightarrow> np_div a b)"

text \<open>
  The elements of a pandas Series are floats with the IEEE special values: arithmetic on
  a Series never raises, a division by zero gives an infinity or NaN, and every
  comparison with NaN is false. \<open>NaN\<close> is also the marker pandas writes where a value
  is not available. Zero carries no sign in this model; a zero divisor is taken as
  \<open>+0.0\<close>.
\<close>

datatype num = Fin real | PInf | NInf | NaN

fun isna :: "num \<Rightarrow> bool" where
  "isna NaN = True"
| "isna v = False"

fun num_le :: "num \<Rightarrow> num \<Rightarrow> bool" where
  "num_le NaN b = False"
| "num_le a NaN = False"
| "num_le NInf b = True"
| "num_le a PInf = True"
| "num_le (Fin a) (Fin b) = (a \<le> b)"
| "num_le a b = False"

fun num_lt :: "num \<Rightarrow> num \<Rightarrow> bool" where
  "num_lt NaN b = False"
| "num_lt a NaN = False"
| "num_lt (Fin a) (Fin b) = (a < b)"
| "num_lt NInf NInf = False"
| "num_lt PInf b = False"
| "num_lt NInf b = True"
| "num_lt a PInf = True"
| "num_lt a b = False"

fun num_add :: "num \<Rightarrow> num \<Rightarrow> num" where
  "num_add NaN b = NaN"
| "num_add a NaN = NaN"
| "num_add (Fin a) (Fin b) = Fin (a + b)"
| "num_add PInf NInf = NaN"
| "num_add NInf PInf = NaN"
| "num_add PInf b = PInf"
| "num_add NInf b = NInf"
| "num_add a PInf = PInf"
| "num_add a NInf = NInf"

fun num_neg :: "num \<Rightarrow> num" where
  "num_neg (Fin a) = Fin (- a)"
| "num_neg PInf = NInf"
| "num_neg NInf = PInf"
| "num_neg NaN = NaN"

definition num_sub :: "num \<Rightarrow> num \<Rightarrow> num" where
  "num_sub a b = num_add a (num_neg b)"

fun num_div :: "num \<Rightarrow> num \<Rightarrow> num" where
  "num_div NaN b = NaN"
| "num_div a NaN = NaN"
| "num_div (Fin a) (Fin b) =
     (if b = 0 then (if a = 0 then NaN else if 0 < a then PInf else NInf)
      else Fin (a / b))"
| "num_div (Fin a) b = Fin 0"
| "num_div PInf (Fin b) = (if 0 \<le> b then PInf else NInf)"
| "num_div NInf (Fin b) = (if 0 \<le> b then NInf else PInf)"
| "num_div a b = NaN"

section \<open>Trade simulator (panel_modules/backtest_simulator.py)\<close>

text \<open>
  A signal is the dictionary with the keys \<open>timestamp\<close>, \<open>price\<close>, \<open>rsi\<close> and
  \<open>action\<close>; the open position and a completed trade are the dictionaries that
  \<open>simulate_trades\<close> builds.
\<close>

record signal =
  timestamp :: int
  price :: real
  rsi :: num
  action :: string

record position =
  entry_time :: int
  entry_price :: real
  entry_rsi :: num
  size_usd :: real

record trade =
  trade_entry_time :: int
  trade_entry_price :: real
  exit_time :: int
  exit_price :: real
  pnl_pct :: real
  profit_usd :: real

text \<open>
  The loop of \<open>simulate_trades\<close>, with its two local variables \<open>position\<close> and
  \<open>trades\<close> as arguments. The prices of the signals are Python floats or numpy floats,
  as the caller passes them; their kind is the first argument. The division by the
  entry price is the only operation of the loop that depends on it: at an entry price
  of 0 it raises for Python floats, and for numpy floats the loop goes on with a trade
  whose \<open>pnl_pct\<close> and \<open>profit_usd\<close> are infinite or NaN, where the model ends with
  \<open>NonFinite\<close>.
\<close>

fun simulate_loop ::
  "scalars \<Rightarrow> real \<Rightarrow> position option \<Rightarrow> trade list \<Rightarrow> signal list \<Rightarrow> error + trade list" where
  "simulate_loop kind position_size position trades [] = Inr trades"
| "simulate_loop kind position_size position trades (s # rest) =
     (if action s = ''BUY'' \<and> position = None then
        simulate_loop kind position_size
          (Some \<lparr>entry_time = timestamp s, entry_price = price s,
                 entry_rsi = rsi s, size_usd = position_size\<rparr>) trades rest
      else
        (case position of
           None \<Rightarrow> simulate_loop kind position_size position trades rest
         | Some p \<Rightarrow>
             if action s = ''SELL'' then
               (case divide_as kind (price s - entry_price p) (entry_price p) of
                  Inl e \<Rightarrow> Inl e
                | Inr q \<Rightarrow>
                    (let pnl = q * 100;
                         profit = (pnl / 100) * size_usd p
                     in simulate_loop kind position_size None
                          (trades @ [\<lparr>trade_entry_time = entry_time p,
                                       trade_entry_price = entry_price p,
                                       exit_time = timestamp s, exit_price = price s,
                                       pnl_pct = pnl, profit_usd = profit\<rparr>]) rest))
             else simulate_loop kind position_size position trades rest))"

definition simulate_trades :: "scalars \<Rightarrow> signal list \<Rightarrow> real \<Rightarrow> error + trade list" where
  "simulate_trades kind signals position_size =
     simulate_loop kind position_size None [] signals"

text \<open>
  The statistics dictionary of \<open>calculate_trade_statistics\<close>; \<open>None\<close> for an empty
  trade list. Python's \<open>sum\<close> adds from the left starting at 0, which over the reals is
  the sum of the list.
\<close>

record stats =
  total_trades :: nat
  winning_trades :: nat
  losing_trades :: nat
  win_rate :: real
  total_profit_usd :: real
  avg_profit :: real

definition calculate_trade_statistics :: "trade list \<Rightarrow> stats option" where
  "calculate_trade_statistics trades =
     (if trades = [] then None
      else
        (let winning = filter (\<lambda>t. profit_usd t > 0) trades;
             losing = filter (\<lambda>t. profit_usd t \<le> 0) trades;
             total_profit = sum_list (map profit_usd trades);
             rate = (if trades \<noteq> [] then (real (length winning) / real (length trades)) * 100 else 0);
             avg = (if trades \<noteq> [] then total_profit / real (length trades) else 0)
         in Some \<lparr>total_trades = length trades, winning_trades = length winning,
                   losing_trades = length losing, win_rate = rate,
                   total_profit_usd = total_profit, avg_profit = avg\<rparr>))"

subsection \<open>The single open-position discipline, from the specification's words\<close>

text \<open>
  The specification's discipline as a function of its own: the accepted round trips of a
  signal sequence are the pairs of an accepted BUY (none open) and the next SELL (one
  open); every other signal is skipped, and a position left open at the end gives no
  pair. The first argument is the BUY signal of the open position, if one is open.
\<close>

fun round_trips :: "signal option \<Rightarrow> signal list \<Rightarrow> (signal \<times> signal) list" where
  "round_trips opened [] = []"
| "round_trips None (s # rest) =
     (if action s = ''BUY'' then round_trips (Some s) rest else round_trips None rest)"
| "round_trips (Some b) (s # rest) =
     (if action s = ''SELL'' then (b, s) # round_trips None rest
      else round_trips (Some b) rest)"

definition round_trip_trade :: "real \<Rightarrow> signal \<times> signal \<Rightarrow> trade" where
  "round_trip_trade position_size bs =
     (let pnl_percent = (price (snd bs) - price (fst bs)) / price (fst bs) * 100
      in \<lparr>trade_entry_time = timestamp (fst bs), trade_entry_price = price (fst bs),
          exit_time = timestamp (snd bs), exit_price = price (snd bs),
          pnl_pct = pnl_percent, profit_usd = pnl_percent / 100 * position_size\<rparr>)"

definition open_position :: "real \<Rightarrow> signal \<Rightarrow> position" where
  "open_position position_size s =
     \<lparr>entry_time = timestamp s, entry_price = price s, entry_rsi = rsi s,
      size_usd = position_size\<rparr>"

definition entries_nonzero :: "(signal \<times> signal) list \<Rightarrow> bool" where
  "entries_nonzero pairs = list_all (\<lambda>bs. price (fst bs) \<noteq> 0) pairs"

section \<open>Indicators (panel_modules/backtest_indicators.py)\<close>

text \<open>
  A price Series is a list of floats. \<open>Series.diff\<close> has NaN at index 0;
  \<open>Series.where cond 0\<close> keeps the elements at which the condition holds and writes 0
  elsewhere (so also where the element is NaN); \<open>rolling(window).mean()\<close> is NaN until
  \<open>window\<close> elements are available (the default \<open>min_periods\<close> is the window) and
  for a window of size 0, and is the mean of the trailing window afterwards; a window
  that holds NaN has too few observations and gives NaN. The Series that reach the mean
  here hold no infinity.
\<close>

abbreviation num_ge :: "num \<Rightarrow> num \<Rightarrow> bool" where
  "num_ge a b \<equiv> num_le b a"

abbreviation num_gt :: "num \<Rightarrow> num \<Rightarrow> bool" where
  "num_gt a b \<equiv> num_lt b a"

definition diff :: "num list \<Rightarrow> num list" where
  "diff xs = map (\<lambda>i. if i = 0 then NaN else num_sub (xs ! i) (xs ! (i - 1))) [0..<length xs]"

definition where_else_zero :: "(num \<Rightarrow> bool) \<Rightarrow> num list \<Rightarrow> num list" where
  "where_else_zero cond xs = map (\<lambda>x. if cond x then x else Fin 0) xs"

definition rolling_mean :: "nat \<Rightarrow> num list \<Rightarrow> num list" where
  "rolling_mean window xs =
     map (\<lambda>i. if window = 0 \<or> i + 1 < window then NaN
              else num_div (fold (\<lambda>x acc. num_add acc x)
                              (take window (drop (i + 1 - window) xs)) (Fin 0))
                           (Fin (real window)))
         [0..<length xs]"

definition calculate_rsi :: "real list \<Rightarrow> nat \<Rightarrow> num list" where
  "calculate_rsi prices period =
     (let deltas = diff (map Fin prices);
          gain = rolling_mean period (where_else_zero (\<lambda>d. num_gt d (Fin 0)) deltas);
          loss = rolling_mean period
                   (map num_neg (where_else_zero (\<lambda>d. num_lt d (Fin 0)) deltas));
          rs = map2 num_div gain loss;
          rsi = map (\<lambda>r. num_sub (Fin 100) (num_div (Fin 100) (num_add (Fin 1) r))) rs
      in rsi)"

definition calculate_sma :: "real list \<Rightarrow> nat \<Rightarrow> num list" where
  "calculate_sma prices period = rolling_mean period (map Fin prices)"

section \<open>Strategy evaluators (panel_modules/backtest_strategies.py)\<close>

text \<open>
  The data frame is the list of its rows. A result row is the statistics dictionary
  extended by the coin, the three parameter columns and the number of signals. The
  prices of the signals are read out of the frame, so the simulator runs on numpy
  floats. Each evaluator runs inside \<open>try ... except Exception: return None\<close>: an
  exception gives \<open>None\<close>; the outcome \<open>NonFinite\<close> is no exception and is
  passed on.
\<close>

record candle =
  c_timestamp :: int
  c_open :: real
  c_high :: real
  c_low :: real
  c_close :: real
  c_volume :: real

record backtest_result = stats +
  coin :: string
  period :: real
  oversold :: real
  overbought :: real
  signals_generated :: nat

definition make_result ::
  "string \<Rightarrow> real \<Rightarrow> real \<Rightarrow> real \<Rightarrow> nat \<Rightarrow> stats \<Rightarrow> backtest_result" where
  "make_result c p os ob n st =
     \<lparr>total_trades = total_trades st, winning_trades = winning_trades st,
      losing_trades = losing_trades st, win_rate = win_rate st,
      total_profit_usd = total_profit_usd st, avg_profit = avg_profit st,
      coin = c, period = p, oversold = os, overbought = ob, signals_generated = n\<rparr>"

text \<open>One pass of the signal loop of \<open>run_rsi_backtest\<close>, at row \<open>i\<close>.\<close>

definition rsi_signal_at :: "candle list \<Rightarrow> num list \<Rightarrow> int \<Rightarrow> int \<Rightarrow> nat \<Rightarrow> signal option" where
  "rsi_signal_at df rsi_col os ob i =
     (if isna (rsi_col ! i) then None
      else
        (let r = rsi_col ! i in
         if num_le r (Fin (real_of_int os)) then
           Some \<lparr>timestamp = c_timestamp (df ! i), price = c_close (df ! i), rsi = r,
                 action = ''BUY''\<rparr>
         else if num_ge r (Fin (real_of_int ob)) then
           Some \<lparr>timestamp = c_timestamp (df ! i), price = c_close (df ! i), rsi = r,
                 action = ''SELL''\<rparr>
         else None))"

definition rsi_signals :: "candle list \<Rightarrow> nat \<Rightarrow> int \<Rightarrow> int \<Rightarrow> signal list" where
  "rsi_signals df p os ob =
     List.map_filter (rsi_signal_at df (calculate_rsi (map c_close df) p) os ob)
       [0..<length df]"

definition run_rsi_backtest ::
  "candle list \<Rightarrow> string \<Rightarrow> nat \<Rightarrow> int \<Rightarrow> int \<Rightarrow> real \<Rightarrow> error + backtest_result option" where
  "run_rsi_backtest df c p os ob position_size =
     (let signals = rsi_signals df p os ob in
      case simulate_trades numpy_floats signals position_size of
        Inl e \<Rightarrow> (if is_Exception e then Inr None else Inl e)
      | Inr trades \<Rightarrow>
          (case calculate_trade_statistics trades of
             None \<Rightarrow> Inr None
           | Some st \<Rightarrow>
               Inr (Some (make_result c (real p) (real_of_int os) (real_of_int ob)
                            (length signals) st))))"

text \<open>One pass of the signal loop of \<open>run_sma_backtest\<close>, at row \<open>i \<ge> 1\<close>.\<close>

definition sma_signal_at :: "candle list \<Rightarrow> num list \<Rightarrow> num list \<Rightarrow> nat \<Rightarrow> signal option" where
  "sma_signal_at df short_sma long_sma i =
     (if isna (short_sma ! i) \<or> isna (long_sma ! i) then None
      else
        (let curr_short = short_sma ! i; curr_long = long_sma ! i;
             prev_short = short_sma ! (i - 1); prev_long = long_sma ! (i - 1)
         in
         if num_le prev_short prev_long \<and> num_gt curr_short curr_long then
           Some \<lparr>timestamp = c_timestamp (df ! i), price = c_close (df ! i), rsi = Fin 0,
                 action = ''BUY''\<rparr>
         else if num_ge prev_short prev_long \<and> num_lt curr_short curr_long then
           Some \<lparr>timestamp = c_timestamp (df ! i), price = c_close (df ! i), rsi = Fin 0,
                 action = ''SELL''\<rparr>
         else None))"

definition sma_signals :: "candle list \<Rightarrow> nat \<Rightarrow> nat \<Rightarrow> signal list" where
  "sma_signals df short_period long_period =
     List.map_filter
       (sma_signal_at df (calculate_sma (map c_close df) short_period)
          (calculate_sma (map c_close df) long_period))
       [1..<length df]"

definition run_sma_backtest ::
  "candle list \<Rightarrow> string \<Rightarrow> nat \<Rightarrow> nat \<Rightarrow> real \<Rightarrow> error + backtest_result option" where
  "run_sma_backtest df c short_period long_period position_size =
     (let signals = sma_signals df short_period long_period in
      case simulate_trades numpy_floats signals position_size of
        Inl e \<Rightarrow> (if is_Exception e then Inr None else Inl e)
      | Inr trades \<Rightarrow>
          (case calculate_trade_statistics trades of
             None \<Rightarrow> Inr None
           | Some st \<Rightarrow>
               Inr (Some (make_result c (real short_period) (real long_period) 0
                            (length signals) st))))"

text \<open>
  The candle series of the end-to-end scenario: 50 closes rising in equal steps from
  100 to 200.
\<close>

definition rising_candle :: "nat \<Rightarrow> candle" where
  "rising_candle i =
     \<lparr>c_timestamp = int i, c_open = 100 + 100 * real i / 49,
      c_high = 100 + 100 * real i / 49, c_low = 100 + 100 * real i / 49,
      c_close = 100 + 100 * real i / 49, c_volume = 1\<rparr>"

definition rising_series :: "candle list" where
  "rising_series = map rising_candle [0..<50]"

section \<open>Result ranking and persistence (panel_modules/backtest_results.py)\<close>

text \<open>
  A Python dictionary keeps its keys in the order of their first insertion, and an
  assignment to a key that is present replaces the value in place:
  \<open>AList.update\<close> on an association list. \<open>list.sort(key, reverse=True)\<close> is a
  stable sort in descending key order (rows of equal key keep their order):
  \<open>sort_key\<close> on the negated key.
\<close>

text \<open>One pass of the loop of \<open>group_best_results_by_coin\<close>.\<close>

definition consider_result ::
  "backtest_result \<Rightarrow> (string \<times> backtest_result) list \<Rightarrow> (string \<times> backtest_result) list" where
  "consider_result result coins_best =
     (case map_of coins_best (coin result) of
        None \<Rightarrow> AList.update (coin result) result coins_best
      | Some best \<Rightarrow>
          if total_profit_usd result > total_profit_usd best
          then AList.update (coin result) result coins_best
          else coins_best)"

definition group_best_results_by_coin :: "backtest_result list \<Rightarrow> backtest_result list" where
  "group_best_results_by_coin results =
     (let coins_best = fold consider_result results [];
          best_per_coin = map snd coins_best
      in sort_key (\<lambda>x. - total_profit_usd x) best_per_coin)"














subsection \<open>The order of first appearance, from the specification's words\<close>




section \<open>Bollinger Bands signal generator (signals/bollinger_bands_30min.py)\<close>

text \<open>
  Sequencing of computations that can raise: the first error ends the computation.
\<close>

definition and_then :: "error + 'a \<Rightarrow> ('a \<Rightarrow> error + 'b) \<Rightarrow> error + 'b" where
  "and_then r f = (case r of Inl e \<Rightarrow> Inl e | Inr v \<Rightarrow> f v)"

text \<open>
  \<open>_calculate_bb_position\<close>; the parameter \<open>middle\<close> is not used by the source
  either.
\<close>

definition calculate_bb_position :: "real \<Rightarrow> real \<Rightarrow> real \<Rightarrow> real \<Rightarrow> error + real" where
  "calculate_bb_position current_price upper lower middle =
     (if upper = lower then Inr 0.5
      else and_then (py_div (current_price - lower) (upper - lower))
             (\<lambda>pos. Inr (max 0.0 (min 1.0 pos))))"

text \<open>
  The band position as \<open>run_bollinger_bands_backtest\<close> computes it inside its signal
  loop (panel_modules/backtest_strategies.py, under the comment
  \<open>Calculate BB position (0 to 1)\<close>): the ratio, or 0.5 when the bands coincide.
\<close>

definition backtest_bb_position :: "real \<Rightarrow> real \<Rightarrow> real \<Rightarrow> error + real" where
  "backtest_bb_position current_price upper lower =
     (if upper \<noteq> lower then py_div (current_price - lower) (upper - lower) else Inr 0.5)"

text \<open>
  \<open>_calculate_signal_strength\<close> of the Bollinger generator, with the attribute
  \<open>self.touch_threshold\<close> as first argument. Its caller is \<open>generate_signal\<close>,
  which passes numbers read out of a Series: numpy floats. The bandwidth may be NaN or
  infinite. The BUY branch and the SELL branch run the same lines, on
  the distance to the lower band and \<open>1 - bb_position\<close> and on the distance to the
  upper band and \<open>bb_position\<close>; these lines are \<open>bb_strength_from\<close>.
\<close>

definition bb_strength_from ::
  "real \<Rightarrow> num \<Rightarrow> real \<Rightarrow> real \<Rightarrow> real" where
  "bb_strength_from touch_threshold bandwidth distance position_strength =
     (let strength = (if distance \<le> touch_threshold
                      then 0.85 + (position_strength * 0.15)
                      else 0.6 + (position_strength * 0.2));
          boosted = (if num_gt bandwidth (Fin 4.0) then min 1.0 (strength + 0.1)
                     else strength)
      in min 1.0 (max 0.0 boosted))"

definition bb_calculate_signal_strength ::
  "real \<Rightarrow> real \<Rightarrow> num \<Rightarrow> string \<Rightarrow> real \<Rightarrow> real \<Rightarrow> real \<Rightarrow> error + real" where
  "bb_calculate_signal_strength touch_threshold bb_position bandwidth act current_price
       lower upper =
     (if act = ''BUY'' then
        and_then (np_div \<bar>current_price - lower\<bar> lower)
          (\<lambda>q. Inr (bb_strength_from touch_threshold bandwidth (q * 100) (1.0 - bb_position)))
      else if act = ''SELL'' then
        and_then (np_div \<bar>upper - current_price\<bar> upper)
          (\<lambda>q. Inr (bb_strength_from touch_threshold bandwidth (q * 100) bb_position))
      else Inr 0.0)"

text \<open>
  The decision of \<open>generate_signal\<close>, from the last close and the last band values
  (after the NaN check) to the action and the strength of the signal it builds.
\<close>

definition bb_generate_signal ::
  "real \<Rightarrow> real \<Rightarrow> real \<Rightarrow> real \<Rightarrow> real \<Rightarrow> num \<Rightarrow> error + string \<times> real" where
  "bb_generate_signal touch_threshold current_price current_middle current_upper
       current_lower current_bandwidth =
     and_then (calculate_bb_position current_price current_upper current_lower current_middle)
       (\<lambda>bb_position.
     and_then (np_div \<bar>current_price - current_lower\<bar> current_lower)
       (\<lambda>ql.
     and_then (np_div \<bar>current_upper - current_price\<bar> current_upper)
       (\<lambda>qu.
          (let distance_to_lower = ql * 100;
               distance_to_upper = qu * 100;
               act = (if bb_position \<le> 0.2 \<or> distance_to_lower \<le> touch_threshold
                      then ''BUY''
                      else if bb_position \<ge> 0.8 \<or> distance_to_upper \<le> touch_threshold
                      then ''SELL''
                      else ''HOLD'')
           in and_then
                (bb_calculate_signal_strength touch_threshold bb_position current_bandwidth
                   act current_price current_lower current_upper)
                (\<lambda>strength. Inr (act, strength))))))"

section \<open>Support and resistance signal generator (signals/support_resistance_1h.py)\<close>

text \<open>
  The inner loop of \<open>_filter_levels_by_distance\<close>, which leaves at the first kept
  level that is too close, its outer loop, and the function.
\<close>

fun level_is_valid :: "real \<Rightarrow> real \<Rightarrow> real list \<Rightarrow> error + bool" where
  "level_is_valid min_distance_percent level [] = Inr True"
| "level_is_valid min_distance_percent level (filtered_level # rest) =
     and_then (py_div \<bar>level - filtered_level\<bar> filtered_level)
       (\<lambda>q. if q * 100 < min_distance_percent then Inr False
            else level_is_valid min_distance_percent level rest)"

fun filter_loop :: "real \<Rightarrow> real list \<Rightarrow> real list \<Rightarrow> error + real list" where
  "filter_loop min_distance_percent filtered [] = Inr filtered"
| "filter_loop min_distance_percent filtered (level # rest) =
     and_then (level_is_valid min_distance_percent level filtered)
       (\<lambda>is_valid. filter_loop min_distance_percent
                       (if is_valid then filtered @ [level] else filtered) rest)"

definition filter_levels_by_distance :: "real list \<Rightarrow> real \<Rightarrow> error + real list" where
  "filter_levels_by_distance levels min_distance_percent =
     (case levels of
        [] \<Rightarrow> Inr []
      | first # rest \<Rightarrow> filter_loop min_distance_percent [first] rest)"

text \<open>
  \<open>_find_nearest_levels\<close>: \<open>min\<close> and \<open>max\<close> are taken of non-empty lists only.
\<close>

definition find_nearest_levels ::
  "real \<Rightarrow> real list \<Rightarrow> real list \<Rightarrow> real option \<times> real option" where
  "find_nearest_levels current_price resistance_levels support_levels =
     (let valid_resistance = filter (\<lambda>r. r > current_price) resistance_levels;
          nearest_resistance = (case valid_resistance of
                                  [] \<Rightarrow> None
                                | r # rs \<Rightarrow> Some (fold min rs r));
          valid_support = filter (\<lambda>s. s < current_price) support_levels;
          nearest_support = (case valid_support of
                               [] \<Rightarrow> None
                             | s # ss \<Rightarrow> Some (fold max ss s))
      in (nearest_resistance, nearest_support))"

text \<open>
  An optional level is true in a condition when it is not \<open>None\<close> and not 0.0; this
  gives the level when it is. In \<open>_calculate_signal_strength\<close> of this generator
  the two branches end in the same two lines, \<open>sr_strength_from\<close>, on the distance
  in percent. A division stands only behind such a condition, so its divisor is not 0.
  The numbers of this generator are read out of the frame: numpy floats.
\<close>

definition truthy_level :: "real option \<Rightarrow> real option" where
  "truthy_level v = (case v of None \<Rightarrow> None | Some x \<Rightarrow> if x = 0 then None else Some x)"

definition sr_strength_from :: "real \<Rightarrow> real" where
  "sr_strength_from distance =
     (let strength = max 0.6 (1.0 - (distance / 2.0)) in min 1.0 (max 0.0 strength))"

definition sr_calculate_signal_strength ::
  "real \<Rightarrow> real option \<Rightarrow> real option \<Rightarrow> string \<Rightarrow> error + real" where
  "sr_calculate_signal_strength current_price nearest_resistance nearest_support act =
     (case (if act = ''BUY'' then truthy_level nearest_support else None) of
        Some support \<Rightarrow>
          and_then (np_div (current_price - support) support)
            (\<lambda>q. Inr (sr_strength_from (q * 100)))
      | None \<Rightarrow>
          (case (if act = ''SELL'' then truthy_level nearest_resistance else None) of
             Some resistance \<Rightarrow>
               and_then (np_div (resistance - current_price) resistance)
                 (\<lambda>q. Inr (sr_strength_from (q * 100)))
           | None \<Rightarrow> Inr 0.0))"

text \<open>
  The decision of \<open>generate_signal\<close>, from the last close and the two lists of levels
  to the action and the strength; \<open>None\<close> when there is no level at all. The BUY test
  comes first and the SELL test can overwrite its action.
\<close>

definition sr_generate_signal ::
  "real \<Rightarrow> real list \<Rightarrow> real list \<Rightarrow> error + (string \<times> real) option" where
  "sr_generate_signal current_price resistance_levels support_levels =
     (if resistance_levels = [] \<and> support_levels = [] then Inr None
      else
        (case find_nearest_levels current_price resistance_levels support_levels of
           (nearest_resistance, nearest_support) \<Rightarrow>
             and_then
               (case truthy_level nearest_support of
                  None \<Rightarrow> Inr ''HOLD''
                | Some support \<Rightarrow>
                    and_then (np_div (current_price - support) support)
                      (\<lambda>q. Inr (if q * 100 \<le> 0.5 then ''BUY'' else ''HOLD'')))
               (\<lambda>after_support.
             and_then
               (case truthy_level nearest_resistance of
                  None \<Rightarrow> Inr after_support
                | Some resistance \<Rightarrow>
                    and_then (np_div (resistance - current_price) resistance)
                      (\<lambda>q. Inr (if q * 100 \<le> 0.5 then ''SELL'' else after_support)))
               (\<lambda>act.
             and_then
               (sr_calculate_signal_strength current_price nearest_resistance
                  nearest_support act)
               (\<lambda>strength. Inr (Some (act, strength)))))))"

text \<open>
  A level \<open>l\<close> is far enough from an earlier kept level \<open>k\<close> when the test of the
  inner loop, \<open>abs(l - k) / k * 100 < min_distance_percent\<close>, is computed and false.
\<close>

definition far_enough :: "real \<Rightarrow> real \<Rightarrow> real \<Rightarrow> bool" where
  "far_enough m k l \<longleftrightarrow> k \<noteq> 0 \<and> m \<le> \<bar>l - k\<bar> / k * 100"

text \<open>
  The loop invariants of the two grouping loops: after the rows \<open>rs\<close> the dictionary
  has one key per coin of \<open>rs\<close>, and the value of a key is, for
  \<open>group_best_results_by_coin\<close>, the first row of greatest profit among the rows of
  that coin, and for \<open>save_best_results\<close> the row of that coin that comes first.
\<close>

definition best_inv :: "backtest_result list \<Rightarrow> (string \<times> backtest_result) list \<Rightarrow> bool" where
  "best_inv rs cb \<longleftrightarrow>
     distinct (map fst cb) \<and> fst ` set cb = coin ` set rs \<and>
     (\<forall>k v. map_of cb k = Some v \<longrightarrow>
        coin v = k \<and> v \<in> set rs \<and>
        (\<forall>r\<in>set rs. coin r = k \<longrightarrow> total_profit_usd r \<le> total_profit_usd v) \<and>
        List.find (\<lambda>r. coin r = k \<and> total_profit_usd r = total_profit_usd v) rs = Some v)"


text \<open>
  Small inputs: a result row of one winning trade and the record written for it, an
  environment in which nothing raises, and one in which the file of BTC cannot be
  opened.
\<close>

definition result_row :: "string \<Rightarrow> real \<Rightarrow> real \<Rightarrow> backtest_result" where
  "result_row c p profit =
     \<lparr>total_trades = 1, winning_trades = 1, losing_trades = 0, win_rate = 100,
      total_profit_usd = profit, avg_profit = profit, coin = c, period = p, oversold = 30,
      overbought = 70, signals_generated = 2\<rparr>"




text \<open>A candle whose four prices are all \<open>x\<close>, for writing down small series.\<close>

definition flat_candle :: "int \<Rightarrow> real \<Rightarrow> candle" where
  "flat_candle t x =
     \<lparr>c_timestamp = t, c_open = x, c_high = x, c_low = x, c_close = x, c_volume = 1\<rparr>"

section \<open>Properties of the trade simulator\<close>

lemma simulate_loop_round_trips:
  "simulate_loop kind ps (map_option (open_position ps) opened) trades signals =
     (if entries_nonzero (round_trips opened signals)
      then Inr (trades @ map (round_trip_trade ps) (round_trips opened signals))
      else Inl (case kind of python_floats \<Rightarrow> ZeroDivisionError | numpy_floats \<Rightarrow> NonFinite))"
proof (induction signals arbitrary: opened trades)
  case Nil
  then show ?case by (simp add: entries_nonzero_def)
next
  case (Cons s rest)
  show ?case
  proof (cases opened)
    case None
    show ?thesis
    proof (cases "action s = ''BUY''")
      case True
      have "simulate_loop kind ps None trades (s # rest) =
              simulate_loop kind ps (map_option (open_position ps) (Some s)) trades rest"
        using True by (simp add: open_position_def)
      then show ?thesis
        using None True Cons.IH [of "Some s" trades] by simp
    next
      case False
      then show ?thesis
        using None Cons.IH [of None trades] by simp
    qed
  next
    case (Some b)
    show ?thesis
    proof (cases "action s = ''SELL''")
      case True
      show ?thesis
      proof (cases "price b = 0")
        case True
        then show ?thesis
          using Some \<open>action s = ''SELL''\<close>
          by (simp add: open_position_def entries_nonzero_def divide_as_def py_div_def
              np_div_def split: scalars.splits)
      next
        case False
        then show ?thesis
          using Some \<open>action s = ''SELL''\<close>
            Cons.IH [of None "trades @ [round_trip_trade ps (b, s)]"]
          by (simp add: open_position_def entries_nonzero_def round_trip_trade_def
              divide_as_def py_div_def np_div_def Let_def split: scalars.splits)
      qed
    next
      case False
      then show ?thesis
        using Some Cons.IH [of "Some b" trades] by (simp add: open_position_def)
    qed
  qed
qed

lemma round_trips_actions:
  "(b, s) \<in> set (round_trips opened signals) \<Longrightarrow>
     (action b = ''BUY'' \<or> opened = Some b) \<and> action s = ''SELL''"
proof (induction opened signals rule: round_trips.induct)
  case (1 opened)
  then show ?case by simp
next
  case (2 s' rest)
  then show ?case by (auto split: if_splits)
next
  case (3 b' s' rest)
  then show ?case by (auto split: if_splits)
qed

lemma round_trips_buy_sell:
  "(b, s) \<in> set (round_trips None signals) \<Longrightarrow> action b = ''BUY'' \<and> action s = ''SELL''"
  using round_trips_actions [of b s None signals] by simp

lemma round_trips_exits_in_order:
  "subseq (map snd (round_trips opened signals)) signals"
  by (induction opened signals rule: round_trips.induct) auto

lemma round_trips_at_most_sells:
  "length (round_trips opened signals) \<le> length (filter (\<lambda>s. action s = ''SELL'') signals)"
  by (induction opened signals rule: round_trips.induct) auto

lemma round_trips_without_sell:
  "filter (\<lambda>s. action s = ''SELL'') signals = [] \<Longrightarrow> round_trips opened signals = []"
  using round_trips_at_most_sells [of opened signals] by simp

text \<open>
  C1, for the signal sequences in which no accepted round trip has entry price 0 (no
  BUY that is taken while flat and closed by a later SELL has price 0), for Python
  floats and for numpy floats: \<open>simulate_trades\<close> follows the single open-position
  discipline. It returns, in signal order, exactly one trade for every accepted round
  trip (a BUY taken while flat and the next SELL), with
  \<open>pnl_pct = (exit_price - entry_price) / entry_price * 100\<close> and
  \<open>profit_usd = pnl_pct / 100 * position_size\<close>; every other signal is skipped without
  an error and a position left open at the end gives no trade. The round trips pair
  BUY signals with SELL signals, their closing signals are in signal order, and there
  are at most as many as there are SELL signals.
\<close>

theorem simulate_trades_round_trips:
  "(entries_nonzero (round_trips None signals) \<longrightarrow>
      simulate_trades kind signals position_size =
        Inr (map (round_trip_trade position_size) (round_trips None signals)))
   \<and> (\<forall>b s. (b, s) \<in> set (round_trips None signals) \<longrightarrow>
          action b = ''BUY'' \<and> action s = ''SELL'')
   \<and> subseq (map snd (round_trips None signals)) signals
   \<and> length (round_trips None signals)
       \<le> length (filter (\<lambda>s. action s = ''SELL'') signals)"
proof -
  have "entries_nonzero (round_trips None signals) \<longrightarrow>
      simulate_trades kind signals position_size =
        Inr (map (round_trip_trade position_size) (round_trips None signals))"
    using simulate_loop_round_trips [of kind position_size None "[]" signals]
    by (simp add: simulate_trades_def)
  moreover have "\<forall>b s. (b, s) \<in> set (round_trips None signals) \<longrightarrow>
          action b = ''BUY'' \<and> action s = ''SELL''"
    using round_trips_buy_sell by blast
  ultimately show ?thesis
    using round_trips_exits_in_order [of None signals]
      round_trips_at_most_sells [of None signals]
    by (intro conjI)
qed

text \<open>
  A BUY at 100, a second BUY (skipped: a position is open), the closing SELL at 110, a
  SELL while flat (skipped) and a last BUY that is never closed: the one round trip has
  entry price 100, and there is one trade, ten percent, 100 USD on a position of
  1000 USD.
\<close>

theorem simulate_trades_round_trips_witness:
  "entries_nonzero (round_trips None
     [\<lparr>timestamp = 1, price = 100, rsi = Fin 25, action = ''BUY''\<rparr>,
      \<lparr>timestamp = 2, price = 105, rsi = Fin 28, action = ''BUY''\<rparr>,
      \<lparr>timestamp = 3, price = 110, rsi = Fin 75, action = ''SELL''\<rparr>,
      \<lparr>timestamp = 4, price = 120, rsi = Fin 80, action = ''SELL''\<rparr>,
      \<lparr>timestamp = 5, price = 50, rsi = Fin 20, action = ''BUY''\<rparr>])
   \<and> simulate_trades numpy_floats
     [\<lparr>timestamp = 1, price = 100, rsi = Fin 25, action = ''BUY''\<rparr>,
      \<lparr>timestamp = 2, price = 105, rsi = Fin 28, action = ''BUY''\<rparr>,
      \<lparr>timestamp = 3, price = 110, rsi = Fin 75, action = ''SELL''\<rparr>,
      \<lparr>timestamp = 4, price = 120, rsi = Fin 80, action = ''SELL''\<rparr>,
      \<lparr>timestamp = 5, price = 50, rsi = Fin 20, action = ''BUY''\<rparr>] 1000 =
   Inr [\<lparr>trade_entry_time = 1, trade_entry_price = 100, exit_time = 3, exit_price = 110,
         pnl_pct = 10, profit_usd = 100\<rparr>]"
  using simulate_trades_round_trips
    [of "[\<lparr>timestamp = 1, price = 100, rsi = Fin 25, action = ''BUY''\<rparr>,
          \<lparr>timestamp = 2, price = 105, rsi = Fin 28, action = ''BUY''\<rparr>,
          \<lparr>timestamp = 3, price = 110, rsi = Fin 75, action = ''SELL''\<rparr>,
          \<lparr>timestamp = 4, price = 120, rsi = Fin 80, action = ''SELL''\<rparr>,
          \<lparr>timestamp = 5, price = 50, rsi = Fin 20, action = ''BUY''\<rparr>]"
        numpy_floats 1000,
     THEN conjunct1]
  by (simp add: entries_nonzero_def round_trip_trade_def)

text \<open>
  The claim as written, for every signal sequence, fails at an entry price of 0: called
  with Python floats, the BUY at price 0 is accepted, the SELL that closes it is
  accepted, and the division by the entry price raises instead of emitting a trade.
\<close>

theorem simulate_trades_zero_entry_counterexample:
  "simulate_trades python_floats
     [\<lparr>timestamp = 1, price = 0, rsi = Fin 25, action = ''BUY''\<rparr>,
      \<lparr>timestamp = 2, price = 1, rsi = Fin 75, action = ''SELL''\<rparr>] 100 =
   Inl ZeroDivisionError"
  by (simp add: simulate_trades_def divide_as_def py_div_def)

section \<open>Properties of the trade statistics\<close>

text \<open>
  C9. For a non-empty trade list \<open>calculate_trade_statistics\<close> returns statistics with
  \<open>winning_trades + losing_trades = total_trades\<close>, \<open>total_profit_usd\<close> the sum of
  the trades' \<open>profit_usd\<close>, \<open>avg_profit = total_profit_usd / total_trades\<close>; the
  winning trades are those of strictly positive profit, and a trade of profit exactly
  zero counts as losing.
\<close>

theorem calculate_trade_statistics_totals:
  assumes "trades \<noteq> []"
  shows "\<exists>st. calculate_trade_statistics trades = Some st
           \<and> total_trades st = length trades
           \<and> winning_trades st + losing_trades st = total_trades st
           \<and> total_profit_usd st = sum_list (map profit_usd trades)
           \<and> avg_profit st = total_profit_usd st / real (total_trades st)
           \<and> winning_trades st = length (filter (\<lambda>t. 0 < profit_usd t) trades)
           \<and> losing_trades st = length (filter (\<lambda>t. profit_usd t = 0) trades)
                                + length (filter (\<lambda>t. profit_usd t < 0) trades)"
proof -
  have split: "length (filter (\<lambda>t. 0 < profit_usd t) trades)
                 + length (filter (\<lambda>t. profit_usd t \<le> 0) trades) = length trades"
    using sum_length_filter_compl [of "\<lambda>t. 0 < profit_usd t" trades]
    by (simp add: not_less)
  have zero_neg: "length (filter (\<lambda>t. profit_usd t \<le> 0) trades)
                 = length (filter (\<lambda>t. profit_usd t = 0) trades)
                 + length (filter (\<lambda>t. profit_usd t < 0) trades)"
    by (induction trades) auto
  show ?thesis
    using assms split zero_neg by (simp add: calculate_trade_statistics_def Let_def)
qed

text \<open>One trade of profit exactly zero: no winning trade, one losing trade.\<close>

theorem calculate_trade_statistics_totals_witness:
  "[\<lparr>trade_entry_time = 1, trade_entry_price = 100, exit_time = 2, exit_price = 100,
      pnl_pct = 0, profit_usd = 0\<rparr>] \<noteq> []
   \<and> calculate_trade_statistics
       [\<lparr>trade_entry_time = 1, trade_entry_price = 100, exit_time = 2, exit_price = 100,
          pnl_pct = 0, profit_usd = 0\<rparr>]
     = Some \<lparr>total_trades = 1, winning_trades = 0, losing_trades = 1, win_rate = 0,
              total_profit_usd = 0, avg_profit = 0\<rparr>"
  using calculate_trade_statistics_totals
    [of "[\<lparr>trade_entry_time = 1, trade_entry_price = 100, exit_time = 2, exit_price = 100,
            pnl_pct = 0, profit_usd = 0\<rparr>]"]
  by (simp add: calculate_trade_statistics_def)

section \<open>Properties of the indicators\<close>

lemma fold_add_Fin:
  "fold (\<lambda>x acc. num_add acc x) (map Fin rs) (Fin a) = Fin (a + sum_list rs)"
  by (induction rs arbitrary: a) (auto simp: algebra_simps)

lemma rolling_mean_warmup:
  "i < length xs \<Longrightarrow> i + 1 < w \<Longrightarrow> rolling_mean w xs ! i = NaN"
  by (simp add: rolling_mean_def)

lemma rolling_mean_Fin:
  "i < length rs \<Longrightarrow> 0 < w \<Longrightarrow> w \<le> i + 1 \<Longrightarrow>
   rolling_mean w (map Fin rs) ! i = Fin (sum_list (take w (drop (i + 1 - w) rs)) / real w)"
  by (simp add: rolling_mean_def fold_add_Fin take_map drop_map)

text \<open>
  After \<open>where\<close> the up-moves and the down-moves are finite and not negative; the
  NaN at index 0 of the differences has become 0.
\<close>

lemma gains_Fin:
  "where_else_zero (\<lambda>d. num_gt d (Fin 0)) (diff (map Fin prices)) =
     map Fin (map (\<lambda>i. if i = 0 then 0 else max 0 (prices ! i - prices ! (i - 1)))
                [0..<length prices])"
  by (auto simp: where_else_zero_def diff_def num_sub_def max_def)

lemma losses_Fin:
  "map num_neg (where_else_zero (\<lambda>d. num_lt d (Fin 0)) (diff (map Fin prices))) =
     map Fin (map (\<lambda>i. if i = 0 then 0 else max 0 (prices ! (i - 1) - prices ! i))
                [0..<length prices])"
  by (auto simp: where_else_zero_def diff_def num_sub_def max_def)

lemma sum_window_nonneg:
  "(\<forall>x\<in>set xs. 0 \<le> (x::real)) \<Longrightarrow> 0 \<le> sum_list (take w (drop k xs))"
  by (meson in_set_dropD in_set_takeD sum_list_nonneg)

lemma rsi_step_range:
  assumes "0 \<le> g" "0 \<le> l"
  shows "num_sub (Fin 100) (num_div (Fin 100) (num_add (Fin 1) (num_div (Fin g) (Fin l)))) = NaN
       \<or> (\<exists>v. num_sub (Fin 100)
                  (num_div (Fin 100) (num_add (Fin 1) (num_div (Fin g) (Fin l)))) = Fin v
              \<and> 0 \<le> v \<and> v \<le> 100)"
proof (cases "l = 0")
  case True
  then show ?thesis using assms by (auto simp: num_sub_def)
next
  case False
  then have "0 < l" using assms by simp
  then have "0 \<le> g / l" using assms by simp
  then have one: "1 \<le> 1 + g / l" by simp
  then have "100 / (1 + g / l) \<le> 100" "0 \<le> 100 / (1 + g / l)"
    by (simp_all add: divide_le_eq)
  then show ?thesis using False one by (auto simp: num_sub_def)
qed

lemma length_rolling_mean: "length (rolling_mean w xs) = length xs"
  by (simp add: rolling_mean_def)

lemma length_diff: "length (diff xs) = length xs"
  by (simp add: diff_def)

lemma length_where_else_zero: "length (where_else_zero cond xs) = length xs"
  by (simp add: where_else_zero_def)

lemma length_calculate_rsi: "length (calculate_rsi prices n) = length prices"
  by (simp add: calculate_rsi_def Let_def length_rolling_mean length_diff
      length_where_else_zero)

lemma calculate_rsi_nth:
  assumes "i < length prices"
  shows "calculate_rsi prices n ! i =
           num_sub (Fin 100) (num_div (Fin 100) (num_add (Fin 1)
             (num_div
                (rolling_mean n
                   (where_else_zero (\<lambda>d. num_gt d (Fin 0)) (diff (map Fin prices))) ! i)
                (rolling_mean n
                   (map num_neg (where_else_zero (\<lambda>d. num_lt d (Fin 0))
                      (diff (map Fin prices)))) ! i))))"
  using assms
  by (simp add: calculate_rsi_def Let_def length_rolling_mean length_diff
      length_where_else_zero)

text \<open>
  C6 (as amended). For every price series and every period \<open>n\<close> of at least 1,
  \<open>calculate_rsi\<close> gives a series as long as the prices, with NaN (not available) at
  each of the first \<open>n - 1\<close> indices, and a value in \<open>[0, 100]\<close> at every index
  where it is not NaN. The index \<open>n - 1\<close> can already carry a value: the NaN of
  the first difference is replaced by 0 before the rolling mean.
\<close>

theorem calculate_rsi_warmup_range:
  assumes "1 \<le> n" and "i < length prices"
  shows "length (calculate_rsi prices n) = length prices
       \<and> (if i + 1 < n then calculate_rsi prices n ! i = NaN
          else calculate_rsi prices n ! i = NaN
             \<or> (\<exists>v. calculate_rsi prices n ! i = Fin v \<and> 0 \<le> v \<and> v \<le> 100))"
proof (cases "i + 1 < n")
  case True
  then have "rolling_mean n
               (where_else_zero (\<lambda>d. num_gt d (Fin 0)) (diff (map Fin prices))) ! i = NaN"
    using assms by (simp add: rolling_mean_def diff_def where_else_zero_def)
  then show ?thesis
    using True assms
    by (simp add: length_calculate_rsi calculate_rsi_nth num_sub_def)
next
  case False
  let ?gs = "map (\<lambda>i. if i = 0 then 0 else max 0 (prices ! i - prices ! (i - 1)))
               [0..<length prices]"
  let ?ls = "map (\<lambda>i. if i = 0 then 0 else max 0 (prices ! (i - 1) - prices ! i))
               [0..<length prices]"
  let ?g = "sum_list (take n (drop (i + 1 - n) ?gs)) / real n"
  let ?l = "sum_list (take n (drop (i + 1 - n) ?ls)) / real n"
  have w: "0 < n" "n \<le> i + 1" using assms False by simp_all
  have g: "rolling_mean n (map Fin ?gs) ! i = Fin ?g"
    using rolling_mean_Fin [of i ?gs n] assms w by simp
  have l: "rolling_mean n (map Fin ?ls) ! i = Fin ?l"
    using rolling_mean_Fin [of i ?ls n] assms w by simp
  have "\<forall>x\<in>set ?gs. 0 \<le> x" by auto
  then have g0: "0 \<le> ?g" using sum_window_nonneg [of ?gs] by simp
  have "\<forall>x\<in>set ?ls. 0 \<le> x" by auto
  then have l0: "0 \<le> ?l" using sum_window_nonneg [of ?ls] by simp
  have "calculate_rsi prices n ! i =
          num_sub (Fin 100) (num_div (Fin 100) (num_add (Fin 1) (num_div (Fin ?g) (Fin ?l))))"
    using assms by (simp only: calculate_rsi_nth gains_Fin losses_Fin g l)
  then show ?thesis
    using rsi_step_range [OF g0 l0] False by (simp add: length_calculate_rsi)
qed

text \<open>
  Prices 1, 2, 3, 2, 5 with period 2: NaN at index 0 only, and the values 100, 100, 50
  and 75 from index 1 on.
\<close>

theorem calculate_rsi_warmup_range_witness:
  "(1::nat) \<le> 2 \<and> (3::nat) < length [1, 2, 3, 2, 5 :: real]
   \<and> calculate_rsi [1, 2, 3, 2, 5] 2 = [NaN, Fin 100, Fin 100, Fin 50, Fin 75]"
  using calculate_rsi_warmup_range [of 2 3 "[1, 2, 3, 2, 5]"]
  by (simp add: calculate_rsi_def diff_def where_else_zero_def rolling_mean_def
      num_sub_def upt_rec)

text \<open>
  The claim as written fails at index \<open>period - 1\<close>: with period 2 the index 1 is one
  of the first two, and the series 1, 2, 3 has the value 100 there.
\<close>

theorem calculate_rsi_defined_early_counterexample:
  "calculate_rsi [1, 2, 3] 2 ! 1 = Fin 100"
  by (simp add: calculate_rsi_def diff_def where_else_zero_def rolling_mean_def
      num_sub_def upt_rec)

section \<open>Properties of the strategy evaluators\<close>

lemma finish_backtest:
  assumes "(case simulate_trades kind signals position_size of
              Inl e \<Rightarrow> (if is_Exception e then Inr None else Inl e)
            | Inr trades \<Rightarrow>
                (case calculate_trade_statistics trades of
                   None \<Rightarrow> Inr None
                 | Some st \<Rightarrow> Inr (Some (make_result c p os ob n st)))) = Inr (Some r)"
  shows "\<exists>trades. simulate_trades kind signals position_size = Inr trades \<and> trades \<noteq> []
           \<and> total_trades r = length trades
           \<and> win_rate r = real (winning_trades r) / real (total_trades r) * 100"
proof (cases "simulate_trades kind signals position_size")
  case (Inl e)
  with assms show ?thesis by (simp split: if_splits)
next
  case (Inr trades)
  show ?thesis
  proof (cases "trades = []")
    case True
    with assms Inr show ?thesis by (simp add: calculate_trade_statistics_def)
  next
    case False
    with assms Inr show ?thesis
      by (auto simp: calculate_trade_statistics_def make_result_def Let_def)
  qed
qed

text \<open>
  C2. When the simulated trade list is empty the evaluator returns \<open>None\<close>; a result,
  whenever one is returned, has \<open>total_trades > 0\<close> (the length of the non-empty trade
  list) and \<open>win_rate = winning_trades / total_trades * 100\<close>. Stated for the RSI
  evaluator and for the SMA evaluator, which end in the same way.
\<close>

theorem evaluator_none_without_trades:
  "(simulate_trades numpy_floats (rsi_signals df p os ob) position_size = Inr [] \<longrightarrow>
      run_rsi_backtest df c p os ob position_size = Inr None)
   \<and> (\<forall>r. run_rsi_backtest df c p os ob position_size = Inr (Some r) \<longrightarrow>
          0 < total_trades r
          \<and> win_rate r = real (winning_trades r) / real (total_trades r) * 100)
   \<and> (simulate_trades numpy_floats (sma_signals df short_period long_period) position_size = Inr [] \<longrightarrow>
        run_sma_backtest df c short_period long_period position_size = Inr None)
   \<and> (\<forall>r. run_sma_backtest df c short_period long_period position_size = Inr (Some r) \<longrightarrow>
          0 < total_trades r
          \<and> win_rate r = real (winning_trades r) / real (total_trades r) * 100)"
proof -
  have rsi_none: "run_rsi_backtest df c p os ob position_size = Inr None"
    if "simulate_trades numpy_floats (rsi_signals df p os ob) position_size = Inr []"
    using that by (simp add: run_rsi_backtest_def calculate_trade_statistics_def)
  have sma_none: "run_sma_backtest df c short_period long_period position_size = Inr None"
    if "simulate_trades numpy_floats (sma_signals df short_period long_period) position_size = Inr []"
    using that by (simp add: run_sma_backtest_def calculate_trade_statistics_def)
  have rsi_some: "0 < total_trades r
      \<and> win_rate r = real (winning_trades r) / real (total_trades r) * 100"
    if "run_rsi_backtest df c p os ob position_size = Inr (Some r)" for r
    using finish_backtest [where kind = numpy_floats and signals = "rsi_signals df p os ob"
        and position_size = position_size and r = r and c = c and p = "real p"
        and os = "real_of_int os" and ob = "real_of_int ob"
        and n = "length (rsi_signals df p os ob)"] that
    by (auto simp: run_rsi_backtest_def Let_def)
  have sma_some: "0 < total_trades r
      \<and> win_rate r = real (winning_trades r) / real (total_trades r) * 100"
    if "run_sma_backtest df c short_period long_period position_size = Inr (Some r)" for r
    using finish_backtest [where kind = numpy_floats and signals = "sma_signals df short_period long_period"
        and position_size = position_size and r = r and c = c
        and p = "real short_period" and os = "real long_period" and ob = 0
        and n = "length (sma_signals df short_period long_period)"] that
    by (auto simp: run_sma_backtest_def Let_def)
  show ?thesis
    using rsi_none sma_none rsi_some sma_some by blast
qed

text \<open>
  Closes 10, 9, 8 with RSI period 2 and thresholds 30 and 70 give two BUY signals and no
  trade: no result. Closes 10, 9, 8, 9, 10, 11 give one trade from 9 to 10: a result
  with one winning trade and a win rate of 100. Closes 10, 9, 10, 9 with SMA periods 1
  and 2 give one losing trade: a result with a win rate of 0.
\<close>

theorem evaluator_none_without_trades_witness:
  "simulate_trades numpy_floats
     (rsi_signals [flat_candle 0 10, flat_candle 1 9, flat_candle 2 8] 2 30 70) 900 = Inr []
   \<and> run_rsi_backtest [flat_candle 0 10, flat_candle 1 9, flat_candle 2 8]
        ''BTC'' 2 30 70 900 = Inr None
   \<and> run_rsi_backtest
        [flat_candle 0 10, flat_candle 1 9, flat_candle 2 8, flat_candle 3 9,
         flat_candle 4 10, flat_candle 5 11] ''BTC'' 2 30 70 900
      = Inr (Some \<lparr>total_trades = 1, winning_trades = 1, losing_trades = 0, win_rate = 100,
               total_profit_usd = 100, avg_profit = 100, coin = ''BTC'', period = 2,
               oversold = 30, overbought = 70, signals_generated = 4\<rparr>)
   \<and> run_sma_backtest
        [flat_candle 0 10, flat_candle 1 9, flat_candle 2 10, flat_candle 3 9]
        ''BTC'' 1 2 100
      = Inr (Some \<lparr>total_trades = 1, winning_trades = 0, losing_trades = 1, win_rate = 0,
               total_profit_usd = - 10, avg_profit = - 10, coin = ''BTC'', period = 1,
               oversold = 2, overbought = 0, signals_generated = 2\<rparr>)"
proof -
  let ?falling = "[flat_candle 0 10, flat_candle 1 9, flat_candle 2 8]"
  let ?vee = "[flat_candle 0 10, flat_candle 1 9, flat_candle 2 8, flat_candle 3 9,
               flat_candle 4 10, flat_candle 5 11]"
  let ?zigzag = "[flat_candle 0 10, flat_candle 1 9, flat_candle 2 10, flat_candle 3 9]"
  have no_trades: "simulate_trades numpy_floats (rsi_signals ?falling 2 30 70) 900 = Inr []"
    by code_simp
  have none: "run_rsi_backtest ?falling ''BTC'' 2 30 70 900 = Inr None"
    using evaluator_none_without_trades
      [of ?falling 2 30 70 900 "''BTC''" 1 2] no_trades by blast
  have rsi_result: "run_rsi_backtest ?vee ''BTC'' 2 30 70 900
      = Inr (Some \<lparr>total_trades = 1, winning_trades = 1, losing_trades = 0, win_rate = 100,
               total_profit_usd = 100, avg_profit = 100, coin = ''BTC'', period = 2,
               oversold = 30, overbought = 70, signals_generated = 4\<rparr>)"
    by code_simp
  have sma_result: "run_sma_backtest ?zigzag ''BTC'' 1 2 100
      = Inr (Some \<lparr>total_trades = 1, winning_trades = 0, losing_trades = 1, win_rate = 0,
               total_profit_usd = - 10, avg_profit = - 10, coin = ''BTC'', period = 1,
               oversold = 2, overbought = 0, signals_generated = 2\<rparr>)"
    by code_simp
  show ?thesis
    using no_trades none rsi_result sma_result by (intro conjI)
qed

lemma sum_list_below:
  "xs \<noteq> [] \<Longrightarrow> (\<forall>x\<in>set xs. x < (m::real)) \<Longrightarrow> sum_list xs < real (length xs) * m"
proof (induction xs)
  case Nil
  then show ?case by simp
next
  case (Cons x xs)
  show ?case
  proof (cases "xs = []")
    case True
    with Cons.prems show ?thesis by simp
  next
    case False
    with Cons have "sum_list xs < real (length xs) * m" by simp
    moreover have "x < m" using Cons.prems by simp
    ultimately show ?thesis by (simp add: algebra_simps)
  qed
qed

lemma sum_list_above:
  "(\<forall>x\<in>set xs. (m::real) \<le> x) \<Longrightarrow> real (length xs) * m \<le> sum_list xs"
  by (induction xs) (auto simp: algebra_simps)

lemma window_split:
  assumes "s \<le> l" "l \<le> i + 1"
  shows "take l (drop (i + 1 - l) xs) = take (l - s) (drop (i + 1 - l) xs) @ take s (drop (i + 1 - s) xs)"
proof -
  have "take l (drop (i + 1 - l) xs) = take ((l - s) + s) (drop (i + 1 - l) xs)"
    using assms by simp
  also have "\<dots> = take (l - s) (drop (i + 1 - l) xs) @ take s (drop (l - s) (drop (i + 1 - l) xs))"
    by (simp only: take_add)
  also have "drop (l - s) (drop (i + 1 - l) xs) = drop (i + 1 - s) xs"
    using assms by simp
  finally show ?thesis .
qed

lemma short_mean_above_long_mean:
  assumes inc: "sorted_wrt (<) (xs::real list)"
    and s: "0 < s" "s < l" and l: "l \<le> i + 1" and i: "i < length xs"
  shows "sum_list (take l (drop (i + 1 - l) xs)) / real l
           < sum_list (take s (drop (i + 1 - s) xs)) / real s"
proof -
  define A where "A = take (l - s) (drop (i + 1 - l) xs)"
  define B where "B = take s (drop (i + 1 - s) xs)"
  have W: "take l (drop (i + 1 - l) xs) = A @ B"
    unfolding A_def B_def using window_split [of s l i xs] s l by simp
  have lenA: "length A = l - s" unfolding A_def using s l i by simp
  have lenB: "length B = s" unfolding B_def using s l i by simp
  have "sorted_wrt (<) (take l (drop (i + 1 - l) xs))"
    using inc by (simp add: sorted_wrt_take sorted_wrt_drop)
  then have AB: "\<forall>a\<in>set A. \<forall>b\<in>set B. a < b" and sB: "sorted_wrt (<) B"
    unfolding W by (auto simp: sorted_wrt_append)
  have Bne: "B \<noteq> []" using lenB s by auto
  have Ane: "A \<noteq> []" using lenA s by auto
  define m where "m = hd B"
  have mB: "m \<in> set B" unfolding m_def using Bne by simp
  have "\<forall>b\<in>set B. m \<le> b"
  proof
    fix b assume "b \<in> set B"
    then show "m \<le> b" using sB Bne unfolding m_def by (cases B) auto
  qed
  then have 1: "real s * m \<le> sum_list B" using sum_list_above [of B m] lenB by simp
  have "\<forall>a\<in>set A. a < m" using AB mB by blast
  then have 2: "sum_list A < real (l - s) * m" using sum_list_below [of A m] Ane lenA by simp
  have ls: "0 < real (l - s)" "0 < real s" "0 < real l" using s by simp_all
  have "real s * sum_list A < real s * (real (l - s) * m)"
    using 2 ls by simp
  also have "\<dots> = real (l - s) * (real s * m)" by simp
  also have "\<dots> \<le> real (l - s) * sum_list B"
    using 1 ls by simp
  finally have 3: "real s * sum_list A < real (l - s) * sum_list B" .
  have rl: "real l = real (l - s) + real s" using s by simp
  have "real s * (sum_list A + sum_list B) < real l * sum_list B"
    using 3 unfolding rl by (simp add: algebra_simps)
  then have "(sum_list A + sum_list B) / real l < sum_list B / real s"
    using ls by (simp add: field_simps)
  moreover have "sum_list (take l (drop (i + 1 - l) xs)) = sum_list A + sum_list B"
    by (simp only: W sum_list_append)
  ultimately show ?thesis unfolding B_def by simp
qed

lemma rising_closes: "sorted_wrt (<) (map c_close rising_series)"
  by (simp add: rising_series_def rising_candle_def sorted_wrt_map sorted_wrt_iff_nth_less)

lemma sma_signal_at_increasing:
  assumes inc: "sorted_wrt (<) (map c_close df)"
    and p: "short_period < long_period" and i: "i < length df"
  shows "sma_signal_at df (calculate_sma (map c_close df) short_period)
           (calculate_sma (map c_close df) long_period) i = None"
proof (cases "short_period = 0 \<or> i + 1 < long_period")
  case True
  then have "isna (calculate_sma (map c_close df) short_period ! i)
           \<or> isna (calculate_sma (map c_close df) long_period ! i)"
    using i by (auto simp: calculate_sma_def rolling_mean_def)
  then show ?thesis by (simp add: sma_signal_at_def)
next
  case False
  then have s: "0 < short_period" and l: "long_period \<le> i + 1" by simp_all
  let ?xs = "map c_close df"
  let ?S = "\<lambda>k. sum_list (take short_period (drop (k + 1 - short_period) ?xs)) / real short_period"
  let ?L = "\<lambda>k. sum_list (take long_period (drop (k + 1 - long_period) ?xs)) / real long_period"
  have cs: "calculate_sma ?xs short_period ! i = Fin (?S i)"
    unfolding calculate_sma_def using rolling_mean_Fin [of i ?xs short_period] i s l p by simp
  have cl: "calculate_sma ?xs long_period ! i = Fin (?L i)"
    unfolding calculate_sma_def using rolling_mean_Fin [of i ?xs long_period] i s l p by simp
  have curr: "?L i < ?S i"
    using short_mean_above_long_mean [OF inc s p l] i by simp
  have prev: "\<not> num_le (calculate_sma ?xs short_period ! (i - 1))
                         (calculate_sma ?xs long_period ! (i - 1))"
  proof (cases "long_period \<le> i")
    case True
    then have i1: "i - 1 < length df" "long_period \<le> (i - 1) + 1" "0 < i"
      using i p by simp_all
    have ps: "calculate_sma ?xs short_period ! (i - 1) = Fin (?S (i - 1))"
      unfolding calculate_sma_def
      using rolling_mean_Fin [of "i - 1" ?xs short_period] i1 s p by simp
    have pl: "calculate_sma ?xs long_period ! (i - 1) = Fin (?L (i - 1))"
      unfolding calculate_sma_def
      using rolling_mean_Fin [of "i - 1" ?xs long_period] i1 s p by simp
    have "?L (i - 1) < ?S (i - 1)"
      using short_mean_above_long_mean [OF inc s p i1(2)] i1 by simp
    then show ?thesis unfolding ps pl by simp
  next
    case False
    then have "i - 1 < length df" "(i - 1) + 1 < long_period" using i l p s by simp_all
    then have "calculate_sma ?xs long_period ! (i - 1) = NaN"
      unfolding calculate_sma_def by (simp add: rolling_mean_warmup)
    then show ?thesis by (cases "calculate_sma ?xs short_period ! (i - 1)") simp_all
  qed
  show ?thesis
    using prev curr unfolding sma_signal_at_def cs cl by (simp add: Let_def)
qed

lemma sma_signals_increasing:
  assumes "sorted_wrt (<) (map c_close df)" "short_period < long_period"
  shows "sma_signals df short_period long_period = []"
  unfolding sma_signals_def List.map_filter_def
  using sma_signal_at_increasing [OF assms] by (auto simp: filter_empty_conv)

text \<open>
  C5 (as amended). On a strictly increasing close series the SMA crossover evaluator
  with a short period below the long period (in particular 5 and 20, on 50 candles
  rising from 100 to 200) generates no signal at all, neither BUY nor SELL, and returns
  \<open>None\<close>. At the first candle that has both averages the previous long average is
  NaN, so no crossover is seen; from then on the short average is above the long one at
  the previous and at the current candle.
\<close>

theorem run_sma_backtest_increasing:
  assumes "sorted_wrt (<) (map c_close df)" and "short_period < long_period"
  shows "sma_signals df short_period long_period = []
       \<and> run_sma_backtest df c short_period long_period position_size = Inr None"
proof -
  have "sma_signals df short_period long_period = []"
    using sma_signals_increasing [OF assms] .
  then show ?thesis
    by (simp add: run_sma_backtest_def simulate_trades_def calculate_trade_statistics_def)
qed

theorem run_sma_backtest_increasing_witness:
  "sorted_wrt (<) (map c_close rising_series) \<and> (5::nat) < 20
   \<and> length rising_series = 50
   \<and> c_close (rising_series ! 0) = 100 \<and> c_close (rising_series ! 49) = 200
   \<and> sma_signals rising_series 5 20 = []
   \<and> run_sma_backtest rising_series ''BTC'' 5 20 100 = Inr None"
proof -
  have shape: "length rising_series = 50 \<and> c_close (rising_series ! 0) = 100
      \<and> c_close (rising_series ! 49) = 200"
    by (simp add: rising_series_def rising_candle_def)
  have periods: "(5::nat) < 20" by simp
  show ?thesis
    using run_sma_backtest_increasing [OF rising_closes periods, of "''BTC''" 100]
      rising_closes shape
    by simp
qed

text \<open>
  The claim as written expects exactly one BUY signal on the rising series; the signal
  list is empty.
\<close>

theorem sma_signals_rising_counterexample:
  "sma_signals rising_series 5 20 = []"
  using sma_signals_increasing [OF rising_closes, of 5 20] by simp

section \<open>Properties of the ranking\<close>

lemma find_append:
  "List.find P (xs @ ys) = (case List.find P xs of None \<Rightarrow> List.find P ys | Some x \<Rightarrow> Some x)"
  by (induction xs) auto

lemma update_fresh:
  "k \<notin> fst ` set al \<Longrightarrow> AList.update k v al = al @ [(k, v)]"
  by (induction al) auto

lemma best_inv_step:
  assumes inv: "best_inv rs cb"
  shows "best_inv (rs @ [x]) (consider_result x cb)"
proof (cases "map_of cb (coin x)")
  case None
  then have "coin x \<notin> coin ` set rs"
    using inv by (simp add: best_inv_def map_of_eq_None_iff)
  then have fresh: "\<forall>r\<in>set rs. coin r \<noteq> coin x" by (metis imageI)
  have cb': "consider_result x cb = AList.update (coin x) x cb"
    using None by (simp add: consider_result_def)
  have nofind: "List.find (\<lambda>r. coin r = coin x \<and> total_profit_usd r = total_profit_usd x) rs = None"
    using fresh by (auto simp: find_None_iff)
  show ?thesis
    unfolding best_inv_def cb'
  proof (intro conjI allI impI)
    show "distinct (map fst (AList.update (coin x) x cb))"
      using inv by (simp add: best_inv_def distinct_update)
    show "fst ` set (AList.update (coin x) x cb) = coin ` set (rs @ [x])"
      using inv by (auto simp: best_inv_def dom_update)
  next
    fix k v assume kv: "map_of (AList.update (coin x) x cb) k = Some v"
    show "coin v = k" "v \<in> set (rs @ [x])"
      "\<forall>r\<in>set (rs @ [x]). coin r = k \<longrightarrow> total_profit_usd r \<le> total_profit_usd v"
      "List.find (\<lambda>r. coin r = k \<and> total_profit_usd r = total_profit_usd v) (rs @ [x]) = Some v"
    proof -
      have "coin v = k \<and> v \<in> set (rs @ [x]) \<and>
        (\<forall>r\<in>set (rs @ [x]). coin r = k \<longrightarrow> total_profit_usd r \<le> total_profit_usd v) \<and>
        List.find (\<lambda>r. coin r = k \<and> total_profit_usd r = total_profit_usd v) (rs @ [x]) = Some v"
      proof (cases "k = coin x")
        case True
        then have "v = x" using kv by (simp add: update_conv')
        then show ?thesis using True fresh nofind by (auto simp: find_append)
      next
        case False
        then have old: "map_of cb k = Some v" using kv by (simp add: update_conv')
        then show ?thesis using inv False
          by (auto simp: best_inv_def find_append)
      qed
      then show "coin v = k" "v \<in> set (rs @ [x])"
        "\<forall>r\<in>set (rs @ [x]). coin r = k \<longrightarrow> total_profit_usd r \<le> total_profit_usd v"
        "List.find (\<lambda>r. coin r = k \<and> total_profit_usd r = total_profit_usd v) (rs @ [x]) = Some v"
        by simp_all
    qed
  qed
next
  case (Some best)
  have bestP: "coin best = coin x" "best \<in> set rs"
    "\<forall>r\<in>set rs. coin r = coin x \<longrightarrow> total_profit_usd r \<le> total_profit_usd best"
    "List.find (\<lambda>r. coin r = coin x \<and> total_profit_usd r = total_profit_usd best) rs = Some best"
    using inv Some by (auto simp: best_inv_def)
  have dom: "coin x \<in> fst ` set cb"
    using Some by (metis map_of_eq_None_iff option.distinct(1))
  show ?thesis
  proof (cases "total_profit_usd x > total_profit_usd best")
    case True
    have cb': "consider_result x cb = AList.update (coin x) x cb"
      using Some True by (simp add: consider_result_def)
    have nofind: "List.find (\<lambda>r. coin r = coin x \<and> total_profit_usd r = total_profit_usd x) rs = None"
      using bestP(3) True by (fastforce simp: find_None_iff)
    show ?thesis
      unfolding best_inv_def cb'
    proof (intro conjI allI impI)
      show "distinct (map fst (AList.update (coin x) x cb))"
        using inv by (simp add: best_inv_def distinct_update)
      show "fst ` set (AList.update (coin x) x cb) = coin ` set (rs @ [x])"
        using inv dom by (auto simp: best_inv_def dom_update)
    next
      fix k v assume kv: "map_of (AList.update (coin x) x cb) k = Some v"
      have "coin v = k \<and> v \<in> set (rs @ [x]) \<and>
        (\<forall>r\<in>set (rs @ [x]). coin r = k \<longrightarrow> total_profit_usd r \<le> total_profit_usd v) \<and>
        List.find (\<lambda>r. coin r = k \<and> total_profit_usd r = total_profit_usd v) (rs @ [x]) = Some v"
      proof (cases "k = coin x")
        case True
        then have "v = x" using kv by (simp add: update_conv')
        then show ?thesis using True bestP(3) \<open>total_profit_usd x > total_profit_usd best\<close> nofind
          by (fastforce simp: find_append)
      next
        case False
        then have old: "map_of cb k = Some v" using kv by (simp add: update_conv')
        then show ?thesis using inv False
          by (auto simp: best_inv_def find_append)
      qed
      then show "coin v = k" "v \<in> set (rs @ [x])"
        "\<forall>r\<in>set (rs @ [x]). coin r = k \<longrightarrow> total_profit_usd r \<le> total_profit_usd v"
        "List.find (\<lambda>r. coin r = k \<and> total_profit_usd r = total_profit_usd v) (rs @ [x]) = Some v"
        by simp_all
    qed
  next
    case False
    have cb': "consider_result x cb = cb"
      using Some False by (simp add: consider_result_def)
    show ?thesis
      unfolding best_inv_def cb'
    proof (intro conjI allI impI)
      show "distinct (map fst cb)" using inv by (simp add: best_inv_def)
      show "fst ` set cb = coin ` set (rs @ [x])"
        using inv dom by (auto simp: best_inv_def)
    next
      fix k v assume kv: "map_of cb k = Some v"
      have "coin v = k \<and> v \<in> set (rs @ [x]) \<and>
        (\<forall>r\<in>set (rs @ [x]). coin r = k \<longrightarrow> total_profit_usd r \<le> total_profit_usd v) \<and>
        List.find (\<lambda>r. coin r = k \<and> total_profit_usd r = total_profit_usd v) (rs @ [x]) = Some v"
      proof (cases "k = coin x")
        case True
        then have "v = best" using kv Some by simp
        then show ?thesis using True bestP False by (auto simp: find_append)
      next
        case False
        then show ?thesis using inv kv
          by (auto simp: best_inv_def find_append)
      qed
      then show "coin v = k" "v \<in> set (rs @ [x])"
        "\<forall>r\<in>set (rs @ [x]). coin r = k \<longrightarrow> total_profit_usd r \<le> total_profit_usd v"
        "List.find (\<lambda>r. coin r = k \<and> total_profit_usd r = total_profit_usd v) (rs @ [x]) = Some v"
        by simp_all
    qed
  qed
qed

lemma best_inv_fold: "best_inv rs (fold consider_result rs [])"
proof (induction rs rule: rev_induct)
  case Nil
  show ?case by (simp add: best_inv_def)
next
  case (snoc x xs)
  then show ?case using best_inv_step [of xs "fold consider_result xs []" x] by simp
qed


lemma fold_consider_fresh:
  "distinct (map coin rs) \<Longrightarrow> (\<forall>r\<in>set rs. coin r \<notin> fst ` set acc) \<Longrightarrow>
   fold consider_result rs acc = acc @ map (\<lambda>r. (coin r, r)) rs"
proof (induction rs arbitrary: acc)
  case Nil
  then show ?case by simp
next
  case (Cons r rs)
  have none: "map_of acc (coin r) = None"
    using Cons.prems(2) by (simp add: map_of_eq_None_iff)
  have step: "consider_result r acc = acc @ [(coin r, r)]"
    using none Cons.prems(2) by (simp add: consider_result_def update_fresh)
  have "coin r \<notin> coin ` set rs" using Cons.prems(1) by simp
  then have "\<forall>r'\<in>set rs. coin r' \<noteq> coin r" by (metis imageI)
  then have "\<forall>r'\<in>set rs. coin r' \<notin> fst ` set (acc @ [(coin r, r)])"
    using Cons.prems(2) by simp
  then have "fold consider_result rs (acc @ [(coin r, r)])
               = (acc @ [(coin r, r)]) @ map (\<lambda>r. (coin r, r)) rs"
    using Cons.IH [of "acc @ [(coin r, r)]"] Cons.prems(1) by simp
  then show ?case using step by simp
qed

lemma coins_best_values:
  assumes "best_inv rs cb"
  shows "map coin (map snd cb) = map fst cb"
proof -
  have "\<forall>p\<in>set cb. coin (snd p) = fst p"
  proof
    fix p assume "p \<in> set cb"
    then have "map_of cb (fst p) = Some (snd p)"
      using assms by (simp add: best_inv_def)
    then show "coin (snd p) = fst p" using assms by (simp add: best_inv_def)
  qed
  then show ?thesis by simp
qed

lemma group_best_set:
  "set (group_best_results_by_coin rs) = snd ` set (fold consider_result rs [])"
  by (simp add: group_best_results_by_coin_def Let_def)

lemma group_best_member:
  assumes "b \<in> set (group_best_results_by_coin rs)"
  shows "b \<in> set rs
       \<and> (\<forall>r\<in>set rs. coin r = coin b \<longrightarrow> total_profit_usd r \<le> total_profit_usd b)
       \<and> List.find (\<lambda>r. coin r = coin b \<and> total_profit_usd r = total_profit_usd b) rs = Some b"
proof -
  let ?cb = "fold consider_result rs []"
  have inv: "best_inv rs ?cb" by (rule best_inv_fold)
  obtain k where "(k, b) \<in> set ?cb"
    using assms unfolding group_best_set by force
  then have m: "map_of ?cb k = Some b"
    using inv by (simp add: best_inv_def)
  then have "coin b = k" using inv by (simp add: best_inv_def)
  with m inv show ?thesis unfolding best_inv_def by blast
qed

lemma group_best_coins:
  "distinct (map coin (group_best_results_by_coin rs))
   \<and> set (map coin (group_best_results_by_coin rs)) = set (map coin rs)"
proof -
  let ?cb = "fold consider_result rs []"
  have inv: "best_inv rs ?cb" by (rule best_inv_fold)
  have "distinct (map fst ?cb)" using inv by (simp add: best_inv_def)
  then have d: "distinct (map coin (map snd ?cb))"
    by (simp only: coins_best_values [OF inv])
  then have "distinct (map snd ?cb) \<and> inj_on coin (set (map snd ?cb))"
    by (simp only: distinct_map)
  then have "distinct (sort_key (\<lambda>x. - total_profit_usd x) (map snd ?cb))
      \<and> inj_on coin (set (sort_key (\<lambda>x. - total_profit_usd x) (map snd ?cb)))"
    by (simp only: distinct_sort set_sort)
  then have 1: "distinct (map coin (group_best_results_by_coin rs))"
    by (simp only: group_best_results_by_coin_def Let_def distinct_map)
  have "set (map coin (map snd ?cb)) = set (map fst ?cb)"
    using coins_best_values [OF inv] by simp
  also have "\<dots> = coin ` set rs" using inv by (simp add: best_inv_def)
  finally have 2: "set (map coin (group_best_results_by_coin rs)) = set (map coin rs)"
    by (simp add: group_best_results_by_coin_def Let_def image_image)
  from 1 2 show ?thesis ..
qed

lemma group_best_sorted:
  "sorted_wrt (\<lambda>a b. total_profit_usd b \<le> total_profit_usd a) (group_best_results_by_coin rs)"
proof -
  have "sorted (map (\<lambda>x. - total_profit_usd x) (group_best_results_by_coin rs))"
    by (simp add: group_best_results_by_coin_def Let_def)
  then show ?thesis by (simp add: sorted_map)
qed

lemma group_best_idem:
  "group_best_results_by_coin (group_best_results_by_coin rs) = group_best_results_by_coin rs"
proof -
  let ?out = "group_best_results_by_coin rs"
  have "distinct (map coin ?out)" using group_best_coins [of rs] by simp
  then have "fold consider_result ?out [] = map (\<lambda>r. (coin r, r)) ?out"
    using fold_consider_fresh [of ?out "[]"] by simp
  then have "map snd (fold consider_result ?out []) = ?out"
    by (simp add: comp_def)
  moreover have "sorted (map (\<lambda>x. - total_profit_usd x) ?out)"
    by (simp add: group_best_results_by_coin_def Let_def)
  ultimately show ?thesis
    using sort_key_id_if_sorted [of "\<lambda>x. - total_profit_usd x" ?out]
    by (simp add: group_best_results_by_coin_def [of ?out] Let_def)
qed

text \<open>
  C3. \<open>group_best_results_by_coin\<close> returns one row per distinct coin of its input;
  each returned row is a row of the input with the greatest \<open>total_profit_usd\<close> among
  the rows of its coin, and the first such row of the input (the first-encountered row
  wins an exact tie); the rows are in descending order of \<open>total_profit_usd\<close>; and
  applying the function to its own output returns that output.
\<close>

theorem group_best_results_by_coin_ranking:
  "distinct (map coin (group_best_results_by_coin rs))
   \<and> set (map coin (group_best_results_by_coin rs)) = set (map coin rs)
   \<and> (\<forall>b\<in>set (group_best_results_by_coin rs).
         b \<in> set rs
         \<and> (\<forall>r\<in>set rs. coin r = coin b \<longrightarrow> total_profit_usd r \<le> total_profit_usd b)
         \<and> List.find (\<lambda>r. coin r = coin b \<and> total_profit_usd r = total_profit_usd b) rs
             = Some b)
   \<and> sorted_wrt (\<lambda>a b. total_profit_usd b \<le> total_profit_usd a)
        (group_best_results_by_coin rs)
   \<and> group_best_results_by_coin (group_best_results_by_coin rs)
       = group_best_results_by_coin rs"
  using group_best_coins [of rs] group_best_member [of _ rs] group_best_sorted [of rs]
    group_best_idem [of rs]
  by blast

text \<open>
  Five rows of two coins; BTC has two rows of the greatest profit 9, and the earlier one
  (period 14) is kept.
\<close>

theorem group_best_results_by_coin_ranking_witness:
  "group_best_results_by_coin
     [result_row ''BTC'' 7 5, result_row ''ETH'' 7 7, result_row ''BTC'' 14 9,
      result_row ''BTC'' 21 9, result_row ''ETH'' 14 3]
   = [result_row ''BTC'' 14 9, result_row ''ETH'' 7 7]
   \<and> group_best_results_by_coin [result_row ''BTC'' 14 9, result_row ''ETH'' 7 7]
     = [result_row ''BTC'' 14 9, result_row ''ETH'' 7 7]"
proof -
  let ?rows = "[result_row ''BTC'' 7 5, result_row ''ETH'' 7 7, result_row ''BTC'' 14 9,
                result_row ''BTC'' 21 9, result_row ''ETH'' 14 3]"
  have out: "group_best_results_by_coin ?rows
               = [result_row ''BTC'' 14 9, result_row ''ETH'' 7 7]"
    by code_simp
  have "group_best_results_by_coin (group_best_results_by_coin ?rows)
          = group_best_results_by_coin ?rows"
    using group_best_results_by_coin_ranking [of ?rows] by blast
  then show ?thesis unfolding out by (simp add: out)
qed

section \<open>Properties of the persistence\<close>





















section \<open>Properties of the Bollinger band position\<close>

lemma calculate_bb_position_value:
  "calculate_bb_position cp upper lower middle =
     Inr (if upper = lower then 1 / 2 else max 0 (min 1 ((cp - lower) / (upper - lower))))"
  by (simp add: calculate_bb_position_def and_then_def py_div_def)

text \<open>
  C7. The band position of the live generator, \<open>_calculate_bb_position\<close>, is as
  claimed: the ratio \<open>(price - lower) / (upper - lower)\<close> clamped to \<open>[0, 1]\<close>,
  with no division fault, and exactly 0.5 when the bands coincide
  (\<open>calculate_bb_position_value\<close>). The signal loop of
  \<open>run_bollinger_bands_backtest\<close> computes the ratio under the comment
  \<open>Calculate BB position (0 to 1)\<close> and does not clamp it: at a close of 30 with the
  upper band at 20 and the lower band at 10 its band position is 2, where the live
  generator has 1.
\<close>

theorem backtest_bb_position_above_upper_band:
  "backtest_bb_position 30 20 10 = Inr 2 \<and> calculate_bb_position 30 20 10 15 = Inr 1"
  by (simp add: backtest_bb_position_def calculate_bb_position_def and_then_def py_div_def)

section \<open>Properties of the support and resistance levels\<close>

lemma nearest_resistance_min:
  "(case fst (find_nearest_levels cp rl sl) of
      None \<Rightarrow> \<forall>r'\<in>set rl. \<not> cp < r'
    | Some r \<Rightarrow> cp < r \<and> r \<in> set rl \<and> (\<forall>r'\<in>set rl. cp < r' \<longrightarrow> r \<le> r'))"
proof (cases "filter (\<lambda>r. cp < r) rl")
  case Nil
  then have "\<forall>r'\<in>set rl. \<not> cp < r'" by (simp add: filter_empty_conv)
  then show ?thesis using Nil by (simp add: find_nearest_levels_def Let_def)
next
  case (Cons x xs)
  let ?r = "fold min xs x"
  have r: "?r = Min (set (x # xs))" by (simp only: Min.set_eq_fold)
  have s: "set (x # xs) = {r \<in> set rl. cp < r}" using Cons [symmetric] by simp
  have "?r \<in> set (x # xs)" unfolding r by (rule Min_in) simp_all
  then have 1: "cp < ?r \<and> ?r \<in> set rl" unfolding s by simp
  have 2: "\<forall>r'\<in>set rl. cp < r' \<longrightarrow> ?r \<le> r'"
  proof (intro ballI impI)
    fix r' assume "r' \<in> set rl" "cp < r'"
    then have "r' \<in> set (x # xs)" unfolding s by simp
    then show "?r \<le> r'" unfolding r by (intro Min_le) simp_all
  qed
  show ?thesis using Cons 1 2 by (simp add: find_nearest_levels_def Let_def)
qed

lemma nearest_support_max:
  "(case snd (find_nearest_levels cp rl sl) of
      None \<Rightarrow> \<forall>s'\<in>set sl. \<not> s' < cp
    | Some s \<Rightarrow> s < cp \<and> s \<in> set sl \<and> (\<forall>s'\<in>set sl. s' < cp \<longrightarrow> s' \<le> s))"
proof (cases "filter (\<lambda>s. s < cp) sl")
  case Nil
  then have "\<forall>s'\<in>set sl. \<not> s' < cp" by (simp add: filter_empty_conv)
  then show ?thesis using Nil by (simp add: find_nearest_levels_def Let_def)
next
  case (Cons x xs)
  let ?s = "fold max xs x"
  have r: "?s = Max (set (x # xs))" by (simp only: Max.set_eq_fold)
  have s: "set (x # xs) = {s \<in> set sl. s < cp}" using Cons [symmetric] by simp
  have "?s \<in> set (x # xs)" unfolding r by (rule Max_in) simp_all
  then have 1: "?s < cp \<and> ?s \<in> set sl" unfolding s by simp
  have 2: "\<forall>s'\<in>set sl. s' < cp \<longrightarrow> s' \<le> ?s"
  proof (intro ballI impI)
    fix s' assume "s' \<in> set sl" "s' < cp"
    then have "s' \<in> set (x # xs)" unfolding s by simp
    then show "s' \<le> ?s" unfolding r by (intro Max_ge) simp_all
  qed
  show ?thesis using Cons 1 2 by (simp add: find_nearest_levels_def Let_def)
qed

lemma level_is_valid_True:
  "level_is_valid m l fs = Inr True \<Longrightarrow> \<forall>k\<in>set fs. far_enough m k l"
  by (induction fs) (auto simp: and_then_def py_div_def far_enough_def split: if_splits)

lemma level_is_valid_False:
  "level_is_valid m l fs = Inr False \<Longrightarrow> \<exists>k\<in>set fs. k \<noteq> 0 \<and> \<bar>l - k\<bar> / k * 100 < m"
  by (induction fs) (auto simp: and_then_def py_div_def split: if_splits)

lemma level_is_valid_nonzero:
  "\<forall>k\<in>set fs. k \<noteq> 0 \<Longrightarrow> \<exists>b. level_is_valid m l fs = Inr b"
  by (induction fs) (auto simp: and_then_def py_div_def)

lemma filter_loop_append:
  "filter_loop m fs (xs @ ys) = and_then (filter_loop m fs xs) (\<lambda>fs'. filter_loop m fs' ys)"
proof (induction xs arbitrary: fs)
  case Nil
  then show ?case by (simp add: and_then_def)
next
  case (Cons x xs)
  show ?case
  proof (cases "level_is_valid m x fs")
    case (Inl e)
    then show ?thesis by (simp add: and_then_def)
  next
    case (Inr b)
    then show ?thesis using Cons.IH by (simp add: and_then_def)
  qed
qed

lemma filter_loop_kept:
  assumes "filter_loop m fs rest = Inr kept" and "sorted_wrt (far_enough m) fs"
  shows "sorted_wrt (far_enough m) kept
       \<and> (\<exists>ext. kept = fs @ ext \<and> subseq ext rest)
       \<and> (\<forall>l\<in>set rest. l \<notin> set kept \<longrightarrow> (\<exists>k\<in>set kept. k \<noteq> 0 \<and> \<bar>l - k\<bar> / k * 100 < m))"
  using assms
proof (induction rest arbitrary: fs)
  case Nil
  then show ?case by simp
next
  case (Cons l rest)
  obtain b where b: "level_is_valid m l fs = Inr b"
    using Cons.prems(1) by (cases "level_is_valid m l fs") (simp_all add: and_then_def)
  show ?case
  proof (cases b)
    case True
    then have run: "filter_loop m (fs @ [l]) rest = Inr kept"
      using Cons.prems(1) b by (simp add: and_then_def)
    have "sorted_wrt (far_enough m) (fs @ [l])"
      using Cons.prems(2) level_is_valid_True b True by (simp add: sorted_wrt_append)
    from Cons.IH [OF run this] obtain ext where
      s: "sorted_wrt (far_enough m) kept" and e: "kept = (fs @ [l]) @ ext" "subseq ext rest"
      and d: "\<forall>x\<in>set rest. x \<notin> set kept \<longrightarrow> (\<exists>k\<in>set kept. k \<noteq> 0 \<and> \<bar>x - k\<bar> / k * 100 < m)"
      by blast
    have "kept = fs @ (l # ext) \<and> subseq (l # ext) (l # rest)" using e by simp
    moreover have "l \<in> set kept" using e by simp
    ultimately show ?thesis using s d by auto
  next
    case False
    then have run: "filter_loop m fs rest = Inr kept"
      using Cons.prems(1) b by (simp add: and_then_def)
    from Cons.IH [OF run Cons.prems(2)] obtain ext where
      s: "sorted_wrt (far_enough m) kept" and e: "kept = fs @ ext" "subseq ext rest"
      and d: "\<forall>x\<in>set rest. x \<notin> set kept \<longrightarrow> (\<exists>k\<in>set kept. k \<noteq> 0 \<and> \<bar>x - k\<bar> / k * 100 < m)"
      by blast
    have "\<exists>k\<in>set fs. k \<noteq> 0 \<and> \<bar>l - k\<bar> / k * 100 < m"
      using level_is_valid_False b False by simp
    then have "\<exists>k\<in>set kept. k \<noteq> 0 \<and> \<bar>l - k\<bar> / k * 100 < m" using e by auto
    moreover have "subseq ext (l # rest)" using e(2) by (rule list_emb_Cons)
    ultimately show ?thesis using s e d by auto
  qed
qed

lemma filter_loop_extends:
  "filter_loop m fs rest = Inr kept \<Longrightarrow> \<exists>ext. kept = fs @ ext"
proof (induction rest arbitrary: fs)
  case Nil
  then show ?case by simp
next
  case (Cons l rest)
  obtain b where b: "level_is_valid m l fs = Inr b"
    using Cons.prems by (cases "level_is_valid m l fs") (simp_all add: and_then_def)
  then have "filter_loop m (if b then fs @ [l] else fs) rest = Inr kept"
    using Cons.prems by (simp add: and_then_def)
  from Cons.IH [OF this] show ?case by (cases b) auto
qed

lemma filter_loop_nonzero:
  "\<forall>k\<in>set fs. k \<noteq> 0 \<Longrightarrow> \<forall>k\<in>set rest. k \<noteq> 0 \<Longrightarrow> \<exists>kept. filter_loop m fs rest = Inr kept"
proof (induction rest arbitrary: fs)
  case Nil
  then show ?case by simp
next
  case (Cons l rest)
  obtain b where b: "level_is_valid m l fs = Inr b"
    using level_is_valid_nonzero [OF Cons.prems(1)] by blast
  have "\<forall>k\<in>set (if b then fs @ [l] else fs). k \<noteq> 0" using Cons.prems by simp
  then obtain kept where "filter_loop m (if b then fs @ [l] else fs) rest = Inr kept"
    using Cons.IH Cons.prems(2) by force
  then show ?case using b by (simp add: and_then_def)
qed

lemma filter_levels_kept:
  assumes "filter_levels_by_distance levels m = Inr kept"
  shows "subseq kept levels
       \<and> (levels \<noteq> [] \<longrightarrow> kept \<noteq> [] \<and> hd kept = hd levels)
       \<and> (\<forall>i j. i < j \<and> j < length kept \<longrightarrow>
             kept ! i \<noteq> 0 \<and> m \<le> \<bar>kept ! j - kept ! i\<bar> / kept ! i * 100)
       \<and> (\<forall>l\<in>set levels. l \<notin> set kept \<longrightarrow> (\<exists>k\<in>set kept. k \<noteq> 0 \<and> \<bar>l - k\<bar> / k * 100 < m))"
proof (cases levels)
  case Nil
  then show ?thesis using assms by (simp add: filter_levels_by_distance_def)
next
  case (Cons first rest)
  then have run: "filter_loop m [first] rest = Inr kept"
    using assms by (simp add: filter_levels_by_distance_def)
  from filter_loop_kept [OF run] obtain ext where
    s: "sorted_wrt (far_enough m) kept" and e: "kept = [first] @ ext" "subseq ext rest"
    and d: "\<forall>x\<in>set rest. x \<notin> set kept \<longrightarrow> (\<exists>k\<in>set kept. k \<noteq> 0 \<and> \<bar>x - k\<bar> / k * 100 < m)"
    by auto
  have pair: "\<forall>i j. i < j \<and> j < length kept \<longrightarrow>
             kept ! i \<noteq> 0 \<and> m \<le> \<bar>kept ! j - kept ! i\<bar> / kept ! i * 100"
    using s unfolding sorted_wrt_iff_nth_less far_enough_def by blast
  have "subseq kept levels" using e Cons by simp
  moreover have "kept \<noteq> [] \<and> hd kept = hd levels" using e Cons by simp
  moreover have "\<forall>l\<in>set levels. l \<notin> set kept \<longrightarrow> (\<exists>k\<in>set kept. k \<noteq> 0 \<and> \<bar>l - k\<bar> / k * 100 < m)"
    using d e Cons by auto
  ultimately show ?thesis using pair by blast
qed

lemma filter_levels_prefix:
  assumes "filter_levels_by_distance levels m = Inr kept"
  shows "\<exists>kn. filter_levels_by_distance (take n levels) m = Inr kn \<and> prefix kn kept"
proof (cases levels)
  case Nil
  then show ?thesis using assms by (simp add: filter_levels_by_distance_def)
next
  case (Cons first rest)
  show ?thesis
  proof (cases n)
    case 0
    then show ?thesis by (simp add: filter_levels_by_distance_def)
  next
    case (Suc k)
    have run: "filter_loop m [first] (take k rest @ drop k rest) = Inr kept"
      using assms Cons by (simp add: filter_levels_by_distance_def)
    then obtain kn where kn: "filter_loop m [first] (take k rest) = Inr kn"
      and rest: "filter_loop m kn (drop k rest) = Inr kept"
      unfolding filter_loop_append
      by (cases "filter_loop m [first] (take k rest)") (simp_all add: and_then_def)
    have "\<exists>ext. kept = kn @ ext" using filter_loop_extends [OF rest] .
    then have "prefix kn kept" by (auto simp: prefix_def)
    then show ?thesis using kn Cons Suc by (simp add: filter_levels_by_distance_def)
  qed
qed

text \<open>
  C8. The nearest resistance, when present, is strictly above the current price and is
  the least resistance level above it, and there is none exactly when no resistance
  level is above the price; the nearest support, when present, is strictly below the
  price and is the greatest support level below it. After distance filtering every kept
  level is at least \<open>min_distance_percent\<close> away from every level kept before it (the
  distance as the source measures it, relative to the earlier level); the kept levels
  are a subsequence of the input that starts with its first level; the levels kept from
  a prefix of the input are a prefix of the levels kept from the whole input, so a level
  once kept is never displaced by a later one; and every level that is dropped is
  closer than \<open>min_distance_percent\<close> to a kept level. The filter returns whenever no
  level is 0.
\<close>

theorem nearest_levels_and_distance_filter:
  "(case fst (find_nearest_levels cp rl sl) of
      None \<Rightarrow> \<forall>r'\<in>set rl. \<not> cp < r'
    | Some r \<Rightarrow> cp < r \<and> r \<in> set rl \<and> (\<forall>r'\<in>set rl. cp < r' \<longrightarrow> r \<le> r'))
   \<and> (case snd (find_nearest_levels cp rl sl) of
        None \<Rightarrow> \<forall>s'\<in>set sl. \<not> s' < cp
      | Some s \<Rightarrow> s < cp \<and> s \<in> set sl \<and> (\<forall>s'\<in>set sl. s' < cp \<longrightarrow> s' \<le> s))
   \<and> (\<forall>kept. filter_levels_by_distance levels m = Inr kept \<longrightarrow>
         subseq kept levels
         \<and> (levels \<noteq> [] \<longrightarrow> kept \<noteq> [] \<and> hd kept = hd levels)
         \<and> (\<forall>i j. i < j \<and> j < length kept \<longrightarrow>
               kept ! i \<noteq> 0 \<and> m \<le> \<bar>kept ! j - kept ! i\<bar> / kept ! i * 100)
         \<and> (\<forall>l\<in>set levels. l \<notin> set kept \<longrightarrow>
               (\<exists>k\<in>set kept. k \<noteq> 0 \<and> \<bar>l - k\<bar> / k * 100 < m))
         \<and> (\<forall>n. \<exists>kn. filter_levels_by_distance (take n levels) m = Inr kn
                     \<and> prefix kn kept))
   \<and> (list_all (\<lambda>l. l \<noteq> 0) levels \<longrightarrow>
         (\<exists>kept. filter_levels_by_distance levels m = Inr kept))"
proof -
  have returns: "list_all (\<lambda>l. l \<noteq> 0) levels \<longrightarrow>
         (\<exists>kept. filter_levels_by_distance levels m = Inr kept)"
  proof (cases levels)
    case Nil
    then show ?thesis by (simp add: filter_levels_by_distance_def)
  next
    case (Cons first rest)
    then show ?thesis
      using filter_loop_nonzero [where fs = "[first]" and rest = rest and m = m]
      by (simp add: filter_levels_by_distance_def list_all_iff)
  qed
  have kept_levels: "\<forall>kept. filter_levels_by_distance levels m = Inr kept \<longrightarrow>
         subseq kept levels
         \<and> (levels \<noteq> [] \<longrightarrow> kept \<noteq> [] \<and> hd kept = hd levels)
         \<and> (\<forall>i j. i < j \<and> j < length kept \<longrightarrow>
               kept ! i \<noteq> 0 \<and> m \<le> \<bar>kept ! j - kept ! i\<bar> / kept ! i * 100)
         \<and> (\<forall>l\<in>set levels. l \<notin> set kept \<longrightarrow>
               (\<exists>k\<in>set kept. k \<noteq> 0 \<and> \<bar>l - k\<bar> / k * 100 < m))
         \<and> (\<forall>n. \<exists>kn. filter_levels_by_distance (take n levels) m = Inr kn
                     \<and> prefix kn kept)"
  proof (intro allI impI)
    fix kept assume run: "filter_levels_by_distance levels m = Inr kept"
    have "\<forall>n. \<exists>kn. filter_levels_by_distance (take n levels) m = Inr kn \<and> prefix kn kept"
      using filter_levels_prefix [OF run] by (rule allI)
    with filter_levels_kept [OF run]
    show "subseq kept levels
         \<and> (levels \<noteq> [] \<longrightarrow> kept \<noteq> [] \<and> hd kept = hd levels)
         \<and> (\<forall>i j. i < j \<and> j < length kept \<longrightarrow>
               kept ! i \<noteq> 0 \<and> m \<le> \<bar>kept ! j - kept ! i\<bar> / kept ! i * 100)
         \<and> (\<forall>l\<in>set levels. l \<notin> set kept \<longrightarrow>
               (\<exists>k\<in>set kept. k \<noteq> 0 \<and> \<bar>l - k\<bar> / k * 100 < m))
         \<and> (\<forall>n. \<exists>kn. filter_levels_by_distance (take n levels) m = Inr kn
                     \<and> prefix kn kept)"
      by (elim conjE, intro conjI)
  qed
  from nearest_resistance_min [where cp = cp and rl = rl and sl = sl]
    nearest_support_max [where cp = cp and rl = rl and sl = sl] kept_levels returns
  show ?thesis by (intro conjI)
qed

text \<open>
  At price 100 the nearest resistance of 120, 101, 99, 105 is 101 and the nearest
  support of 90, 100, 99.5, 120 is 99.5 (the level 100 is not strictly below). From
  the levels 100, 101, 103, 104, 110 at two percent the levels 100, 103 and 110 are
  kept.
\<close>

theorem nearest_levels_and_distance_filter_witness:
  "find_nearest_levels 100 [120, 101, 99, 105] [90, 100, 99.5, 120] = (Some 101, Some 99.5)
   \<and> filter_levels_by_distance [100, 101, 103, 104, 110] 2 = Inr [100, 103, 110]
   \<and> subseq [100, 103, 110] [100, 101, 103, 104, 110 :: real]
   \<and> list_all (\<lambda>l. l \<noteq> 0) [100, 101, 103, 104, 110 :: real]"
proof -
  have near: "find_nearest_levels 100 [120, 101, 99, 105] [90, 100, 99.5, 120]
      = (Some 101, Some 99.5)"
    by code_simp
  have kept: "filter_levels_by_distance [100, 101, 103, 104, 110] 2 = Inr [100, 103, 110]"
    by code_simp
  note filtered = nearest_levels_and_distance_filter
      [where cp = 100 and rl = "[120, 101, 99, 105]" and sl = "[90, 100, 99.5, 120]"
         and levels = "[100, 101, 103, 104, 110]" and m = 2,
       THEN conjunct2, THEN conjunct2, THEN conjunct1, rule_format, OF kept]
  have sub: "subseq [100, 103, 110] [100, 101, 103, 104, 110 :: real]"
    using filtered by (rule conjunct1)
  have nonzero: "list_all (\<lambda>l. l \<noteq> 0) [100, 101, 103, 104, 110 :: real]"
    by simp
  from near kept sub nonzero show ?thesis by (intro conjI)
qed

section \<open>Properties of the signal strength\<close>

lemma bb_strength_from_range:
  assumes "0 \<le> s" "s \<le> 1"
  shows "0.6 \<le> bb_strength_from tt bw d s \<and> bb_strength_from tt bw d s \<le> 1"
proof -
  have 1: "0.6 \<le> 0.85 + s * 0.15" "0.6 \<le> 0.6 + s * 0.2" using assms by simp_all
  show ?thesis
    unfolding bb_strength_from_def Let_def using 1 by (auto simp: min_def max_def)
qed

lemma sr_strength_from_range: "0.6 \<le> sr_strength_from d \<and> sr_strength_from d \<le> 1"
  unfolding sr_strength_from_def Let_def by (auto simp: min_def max_def)

lemma bb_generate_signal_cases:
  assumes "bb_generate_signal tt cp mid up lo bw = Inr (act, strength)"
  shows "(act = ''BUY'' \<or> act = ''SELL'' \<or> act = ''HOLD'')
       \<and> (act = ''HOLD'' \<longrightarrow> strength = 0)
       \<and> (act \<noteq> ''HOLD'' \<longrightarrow> 0.6 \<le> strength \<and> strength \<le> 1)"
proof -
  define bbp where "bbp = (if up = lo then 1 / 2 else max 0 (min 1 ((cp - lo) / (up - lo))))"
  have pos: "calculate_bb_position cp up lo mid = Inr bbp"
    unfolding bbp_def by (rule calculate_bb_position_value)
  have r: "0 \<le> bbp" "bbp \<le> 1" unfolding bbp_def by (auto simp: max_def min_def)
  then have r': "0 \<le> 1 - bbp" "1 - bbp \<le> 1" by simp_all
  have nz: "lo \<noteq> 0" "up \<noteq> 0"
    using assms unfolding bb_generate_signal_def pos
    by (auto simp: and_then_def np_div_def split: if_splits)
  show ?thesis
    using assms nz bb_strength_from_range [OF r] bb_strength_from_range [OF r']
    unfolding bb_generate_signal_def pos
    by (auto simp: and_then_def np_div_def bb_calculate_signal_strength_def Let_def
        split: if_splits)
qed

lemma bb_generate_signal_returns:
  assumes "lo \<noteq> 0" "up \<noteq> 0"
  shows "\<exists>act strength. bb_generate_signal tt cp mid up lo bw = Inr (act, strength)"
  using assms calculate_bb_position_value [of cp up lo mid]
  unfolding bb_generate_signal_def
  by (simp add: and_then_def np_div_def bb_calculate_signal_strength_def Let_def)

lemma truthy_level_Some: "truthy_level v = Some x \<Longrightarrow> x \<noteq> 0 \<and> v = Some x"
  by (auto simp: truthy_level_def split: option.splits if_splits)

lemma sr_generate_signal_cases:
  assumes "sr_generate_signal cp rl sl = Inr (Some (act, strength))"
  shows "(act = ''BUY'' \<or> act = ''SELL'' \<or> act = ''HOLD'')
       \<and> (act = ''HOLD'' \<longrightarrow> strength = 0)
       \<and> (act \<noteq> ''HOLD'' \<longrightarrow> 0.6 \<le> strength \<and> strength \<le> 1)"
proof -
  obtain nr ns where n: "find_nearest_levels cp rl sl = (nr, ns)"
    by (cases "find_nearest_levels cp rl sl")
  have range: "\<And>d. 0.6 \<le> sr_strength_from d" "\<And>d. sr_strength_from d \<le> 1"
    using sr_strength_from_range by simp_all
  show ?thesis
  proof (cases "truthy_level ns")
    case None
    note ns = None
    show ?thesis
    proof (cases "truthy_level nr")
      case None
      then show ?thesis using assms ns n
        by (auto simp: sr_generate_signal_def and_then_def sr_calculate_signal_strength_def
            split: if_splits)
    next
      case (Some r)
      then have "r \<noteq> 0" using truthy_level_Some by blast
      then show ?thesis using assms ns n Some range
        by (auto simp: sr_generate_signal_def and_then_def sr_calculate_signal_strength_def
            np_div_def split: if_splits)
    qed
  next
    case (Some s)
    then have s0: "s \<noteq> 0" using truthy_level_Some by blast
    note ns = Some
    show ?thesis
    proof (cases "truthy_level nr")
      case None
      then show ?thesis using assms ns n s0 range
        by (auto simp: sr_generate_signal_def and_then_def sr_calculate_signal_strength_def
            np_div_def split: if_splits)
    next
      case (Some r)
      then have "r \<noteq> 0" using truthy_level_Some by blast
      then show ?thesis using assms ns n Some s0 range
        by (auto simp: sr_generate_signal_def and_then_def sr_calculate_signal_strength_def
            np_div_def split: if_splits)
    qed
  qed
qed

lemma sr_generate_signal_returns:
  "\<exists>res. sr_generate_signal cp rl sl = Inr res"
proof -
  obtain nr ns where n: "find_nearest_levels cp rl sl = (nr, ns)"
    by (cases "find_nearest_levels cp rl sl")
  show ?thesis
    using n
    by (auto simp: sr_generate_signal_def and_then_def sr_calculate_signal_strength_def
        np_div_def truthy_level_def split: option.splits if_splits)
qed

lemma sr_generate_signal_some:
  "rl \<noteq> [] \<or> sl \<noteq> [] \<Longrightarrow> \<exists>act strength. sr_generate_signal cp rl sl = Inr (Some (act, strength))"
proof -
  assume a: "rl \<noteq> [] \<or> sl \<noteq> []"
  obtain nr ns where n: "find_nearest_levels cp rl sl = (nr, ns)"
    by (cases "find_nearest_levels cp rl sl")
  show ?thesis
    using n a
    by (auto simp: sr_generate_signal_def and_then_def sr_calculate_signal_strength_def
        np_div_def truthy_level_def split: option.splits if_splits)
qed

text \<open>
  C10. Whenever a live generator computes a strength, the action is BUY, SELL or HOLD,
  the strength of a BUY or SELL signal lies in \<open>[0.6, 1.0]\<close> and the strength of a
  HOLD signal is exactly 0.0: for the Bollinger Bands generator, which computes a
  strength whenever neither band is 0, and for the support and resistance generator,
  which never raises and computes a strength whenever it has a level.
\<close>

theorem live_signal_strength_range:
  "(\<forall>act strength.
      bb_generate_signal tt cp mid up lo bw = Inr (act, strength) \<longrightarrow>
        (act = ''BUY'' \<or> act = ''SELL'' \<or> act = ''HOLD'')
        \<and> (act = ''HOLD'' \<longrightarrow> strength = 0)
        \<and> (act \<noteq> ''HOLD'' \<longrightarrow> 0.6 \<le> strength \<and> strength \<le> 1))
   \<and> (lo \<noteq> 0 \<and> up \<noteq> 0 \<longrightarrow>
        (\<exists>act strength. bb_generate_signal tt cp mid up lo bw = Inr (act, strength)))
   \<and> (\<forall>act strength.
        sr_generate_signal sp rl sl = Inr (Some (act, strength)) \<longrightarrow>
          (act = ''BUY'' \<or> act = ''SELL'' \<or> act = ''HOLD'')
          \<and> (act = ''HOLD'' \<longrightarrow> strength = 0)
          \<and> (act \<noteq> ''HOLD'' \<longrightarrow> 0.6 \<le> strength \<and> strength \<le> 1))
   \<and> (\<exists>res. sr_generate_signal sp rl sl = Inr res)
   \<and> (rl \<noteq> [] \<or> sl \<noteq> [] \<longrightarrow>
        (\<exists>act strength. sr_generate_signal sp rl sl = Inr (Some (act, strength))))"
  using bb_generate_signal_cases
      [where tt = tt and cp = cp and mid = mid and up = up and lo = lo and bw = bw]
    bb_generate_signal_returns
      [where tt = tt and cp = cp and mid = mid and up = up and lo = lo and bw = bw]
    sr_generate_signal_cases [where cp = sp and rl = rl and sl = sl]
    sr_generate_signal_returns [where cp = sp and rl = rl and sl = sl]
    sr_generate_signal_some [where cp = sp and rl = rl and sl = sl]
  by blast

text \<open>
  Bollinger Bands with bands 100 and 120 and a touch threshold of 0.5 percent: a close
  of 119 gives SELL with strength 0.79, a close of 110 gives HOLD with strength 0.
  Support and resistance: at 100.2 with support 100 the action is BUY with strength
  0.9.
\<close>

theorem live_signal_strength_range_witness:
  "bb_generate_signal 0.5 119 110 120 100 (Fin 3) = Inr (''SELL'', 0.79)
   \<and> 0.6 \<le> (0.79 :: real) \<and> (0.79 :: real) \<le> 1
   \<and> bb_generate_signal 0.5 110 110 120 100 (Fin 18) = Inr (''HOLD'', 0)
   \<and> sr_generate_signal 100.2 [101, 120] [100, 90] = Inr (Some (''BUY'', 0.9))"
proof -
  have sell: "bb_generate_signal 0.5 119 110 120 100 (Fin 3) = Inr (''SELL'', 0.79)"
    by code_simp
  have hold: "bb_generate_signal 0.5 110 110 120 100 (Fin 18) = Inr (''HOLD'', 0)"
    by code_simp
  have buy: "sr_generate_signal 100.2 [101, 120] [100, 90] = Inr (Some (''BUY'', 0.9))"
    by code_simp
  note strength = live_signal_strength_range
      [where tt = "0.5" and cp = 119 and mid = 110 and up = 120 and lo = 100
         and bw = "Fin 3",
       THEN conjunct1, rule_format, OF sell]
  have "''SELL'' \<noteq> ''HOLD''" by simp
  with strength have range: "0.6 \<le> (0.79 :: real) \<and> (0.79 :: real) \<le> 1" by blast
  from sell range hold buy show ?thesis by (intro conjI) simp_all
qed

end
